theory Spec2Isabelle
  imports Complex_Main
begin

section \<open>Data model\<close>

text \<open>
  Exceptions of the Python program that matter for control flow. A function that can
  raise returns \<open>exn + 'a\<close>, with \<open>Inl\<close> for the raised exception.
\<close>

datatype exn = OverflowError | ValueError | TypeError | AttributeError | KeyError
  | IndexError | RuntimeError | NetworkError | DatabaseError

text \<open>
  A calendar date (\<open>datetime.date\<close>) is its proleptic Gregorian day ordinal, as
  \<open>date.toordinal()\<close> gives it: 0001-01-01 is 1 and 9999-12-31 is 3652059. The
  program keeps dates as the strings \<open>date.isoformat()\<close> prints (zero padded
  YYYY-MM-DD) and compares these strings; on the dates of the calendar the order of
  the strings is the order of the days, so the model compares ordinals.
\<close>

type_synonym date = int

definition date_min :: date where
  "date_min = 1"

definition date_max :: date where
  "date_max = 3652059"

definition timedelta_max_days :: int where
  "timedelta_max_days = 999999999"

text \<open>\<open>d + timedelta(days=n)\<close>: raises OverflowError outside the calendar.\<close>

definition date_add :: "date \<Rightarrow> int \<Rightarrow> exn + date" where
  "date_add d n =
     (if \<bar>n\<bar> > timedelta_max_days then Inl OverflowError
      else if date_min \<le> d + n \<and> d + n \<le> date_max then Inr (d + n)
      else Inl OverflowError)"

text \<open>
  A Python value as \<open>json\<close> decodes it: the program inspects the decoded ranking
  pages with \<open>dict.get\<close>, \<open>isinstance\<close>, indexing and truth tests. A dictionary is
  the list of its items (keys are strings in JSON).
\<close>

datatype pyval = PNone | PBool bool | PInt int | PFloat real | PStr string
  | PList "pyval list" | PDict "(string \<times> pyval) list"

text \<open>
  A Python float as a sort key and as a column value: a number, an infinity, or NaN.
  NaN answers False to every comparison; the other values are totally ordered.
\<close>

datatype pyfloat = NaN | NegInf | Fin real | PosInf

text \<open>\<open>a < b\<close> and \<open>a >= b\<close> on floats.\<close>

fun py_lt :: "pyfloat \<Rightarrow> pyfloat \<Rightarrow> bool" where
  "py_lt NaN b = False"
| "py_lt a NaN = False"
| "py_lt (Fin x) (Fin y) = (x < y)"
| "py_lt (Fin x) PosInf = True"
| "py_lt (Fin x) NegInf = False"
| "py_lt NegInf NegInf = False"
| "py_lt NegInf b = True"
| "py_lt PosInf b = False"

definition py_ge :: "pyfloat \<Rightarrow> pyfloat \<Rightarrow> bool" where
  "py_ge a b = (a \<noteq> NaN \<and> b \<noteq> NaN \<and> \<not> py_lt a b)"

text \<open>A symbol record as filter1 builds it: the dictionary with keys symbol, name,
  market_cap, rank. The name is whatever the quote carries (or the symbol).\<close>

record coin =
  symbol :: string
  name :: pyval
  market_cap :: pyfloat
  rank :: "nat option"

text \<open>A fetch plan entry: the dictionary with keys symbol, start_date, end_date.\<close>

record plan_entry =
  p_symbol :: string
  start_date :: date
  end_date :: date

section \<open>filter2: the sync planner\<close>

text \<open>
  \<open>_default_start_date_str\<close>: today minus HISTORY_DAYS. The clock
  (\<open>datetime.utcnow().date()\<close>) is the parameter \<open>today\<close>.
\<close>

definition default_start_date :: "date \<Rightarrow> int \<Rightarrow> exn + date" where
  "default_start_date today HISTORY_DAYS = date_add today (- HISTORY_DAYS)"

text \<open>
  The start date computed for one symbol (lines 36 to 45 of filter2.py).
  \<open>strptime\<close> is \<open>datetime.strptime(s, "%Y-%m-%d").date()\<close>, with \<open>None\<close> for
  ValueError; \<open>last_dates\<close> is the coverage map read from the store.
\<close>

definition coin_start_date ::
  "(string \<Rightarrow> date option) \<Rightarrow> (string \<rightharpoonup> string) \<Rightarrow> date \<Rightarrow> date \<Rightarrow> string \<Rightarrow> exn + date"
where
  "coin_start_date strptime last_dates today default_start smb =
     (case last_dates smb of
        None \<Rightarrow> Inr default_start
      | Some last_date \<Rightarrow>
          (let dt = (case strptime last_date of Some d \<Rightarrow> d | None \<Rightarrow> today)
           in date_add dt 1))"

text \<open>The loop over \<open>top_coins\<close>, appending to \<open>plan\<close>.\<close>

fun plan_loop ::
  "(string \<Rightarrow> date option) \<Rightarrow> (string \<rightharpoonup> string) \<Rightarrow> date \<Rightarrow> date \<Rightarrow>
   plan_entry list \<Rightarrow> coin list \<Rightarrow> exn + plan_entry list"
where
  "plan_loop strptime last_dates today default_start plan [] = Inr plan"
| "plan_loop strptime last_dates today default_start plan (c # cs) =
     (case coin_start_date strptime last_dates today default_start (symbol c) of
        Inl e \<Rightarrow> Inl e
      | Inr start \<Rightarrow>
          if start > today
          then plan_loop strptime last_dates today default_start plan cs
          else plan_loop strptime last_dates today default_start
                 (plan @ [\<lparr>p_symbol = symbol c, start_date = start, end_date = today\<rparr>]) cs)"

definition build_update_plan ::
  "(string \<Rightarrow> date option) \<Rightarrow> (string \<rightharpoonup> string) \<Rightarrow> date \<Rightarrow> int \<Rightarrow> coin list \<Rightarrow>
   exn + plan_entry list"
where
  "build_update_plan strptime last_dates today HISTORY_DAYS top_coins =
     (case default_start_date today HISTORY_DAYS of
        Inl e \<Rightarrow> Inl e
      | Inr default_start \<Rightarrow> plan_loop strptime last_dates today default_start [] top_coins)"

section \<open>db_utils: the storage gateway\<close>

text \<open>
  A row of \<open>daily_history\<close>: the list [symbol, date, open, high, low, close, volume]
  the fetchers build. The date column is text; floats are modelled as reals.
\<close>

record bar =
  b_symbol :: string
  b_date :: string
  b_open :: real
  b_high :: real
  b_low :: real
  b_close :: real
  b_volume :: real

text \<open>PRIMARY KEY (symbol, date).\<close>

definition bar_key :: "bar \<Rightarrow> string \<times> string" where
  "bar_key r = (b_symbol r, b_date r)"

text \<open>A row of \<open>coins\<close>; PRIMARY KEY symbol.\<close>

record coin_row =
  c_symbol :: string
  c_name :: "string option"
  c_market_cap :: "pyfloat option"
  c_rank :: int
  c_source :: string
  c_last_updated :: string

text \<open>The persisted state: the two tables, each the list of its rows.\<close>

record db =
  coins_tbl :: "coin_row list"
  daily_history :: "bar list"

text \<open>
  \<open>INSERT OR REPLACE\<close> of one row: the rows in conflict on the primary key are
  deleted, then the row is inserted. \<open>executemany\<close> does so for each row in order.
\<close>

definition insert_or_replace :: "('r \<Rightarrow> 'k) \<Rightarrow> 'r list \<Rightarrow> 'r \<Rightarrow> 'r list" where
  "insert_or_replace key tbl r = filter (\<lambda>x. key x \<noteq> key r) tbl @ [r]"

definition executemany :: "('r \<Rightarrow> 'k) \<Rightarrow> 'r list \<Rightarrow> 'r list \<Rightarrow> 'r list" where
  "executemany key tbl rows = foldl (insert_or_replace key) tbl rows"

text \<open>
  \<open>with conn:\<close> runs its body in one transaction: committed when the body ends
  normally, rolled back when it raises, and the exception propagates. The result is
  the state left behind and the exception, if any.
\<close>

definition with_conn :: "db \<Rightarrow> (db \<Rightarrow> exn + db) \<Rightarrow> db \<times> exn option" where
  "with_conn conn body =
     (case body conn of Inr conn' \<Rightarrow> (conn', None) | Inl e \<Rightarrow> (conn, Some e))"

text \<open>
  \<open>insert_daily_history\<close>. The rows are typed (text and floats), so binding them
  cannot fail. The time accounting (DB_WRITE_TIME) is left out.
\<close>

definition insert_daily_history :: "db \<Rightarrow> bar list \<Rightarrow> db" where
  "insert_daily_history conn rows =
     (if rows = [] then conn
      else fst (with_conn conn (\<lambda>c.
             Inr (c\<lparr>daily_history := executemany bar_key (daily_history c) rows\<rparr>))))"

text \<open>
  Binding the name parameter, and what the TEXT column \<open>name\<close> then holds: None is
  NULL, a text is stored as it is, a number is stored as its text (a boolean is bound
  as the integer 1 or 0; \<open>to_text\<close> is SQLite's rendering of a number). An integer
  beyond 64 bits raises OverflowError; a list or a dictionary cannot be bound.
\<close>

fun bind_name :: "(pyval \<Rightarrow> string) \<Rightarrow> pyval \<Rightarrow> exn + string option" where
  "bind_name to_text PNone = Inr None"
| "bind_name to_text (PStr s) = Inr (Some s)"
| "bind_name to_text (PBool b) = Inr (Some (to_text (PInt (if b then 1 else 0))))"
| "bind_name to_text (PInt i) =
     (if - (2 ^ 63) \<le> i \<and> i < 2 ^ 63 then Inr (Some (to_text (PInt i)))
      else Inl OverflowError)"
| "bind_name to_text (PFloat r) = Inr (Some (to_text (PFloat r)))"
| "bind_name to_text (PList l) = Inl DatabaseError"
| "bind_name to_text (PDict d) = Inl DatabaseError"

text \<open>
  The row stored for one coin. The parameter tuple holds \<open>float(market_cap or 0.0)\<close>,
  which is the market cap itself (SQLite stores a NaN as NULL), and \<open>int(rank or 0)\<close>,
  0 for a missing rank and an OverflowError when bound beyond 64 bits; \<open>now\<close> is
  \<open>datetime('now')\<close>.
\<close>

definition bind_float :: "pyfloat \<Rightarrow> pyfloat option" where
  "bind_float x = (if x = NaN then None else Some x)"

definition coin_to_row ::
  "(pyval \<Rightarrow> string) \<Rightarrow> string \<Rightarrow> string \<Rightarrow> coin \<Rightarrow> exn + coin_row"
where
  "coin_to_row to_text source now c =
     (case bind_name to_text (name c) of
        Inl e \<Rightarrow> Inl e
      | Inr nm \<Rightarrow>
         (let rk = (case rank c of None \<Rightarrow> 0 | Some r \<Rightarrow> int r) in
          if rk < 2 ^ 63
          then Inr \<lparr>c_symbol = symbol c, c_name = nm, c_market_cap = bind_float (market_cap c),
                    c_rank = rk, c_source = source, c_last_updated = now\<rparr>
          else Inl OverflowError))"

text \<open>\<open>executemany\<close> binds the tuples in order; the first one that cannot be bound
  raises.\<close>

fun bind_all :: "('a \<Rightarrow> exn + 'r) \<Rightarrow> 'a list \<Rightarrow> exn + 'r list" where
  "bind_all f [] = Inr []"
| "bind_all f (x # xs) =
     (case f x of
        Inl e \<Rightarrow> Inl e
      | Inr r \<Rightarrow> (case bind_all f xs of Inl e \<Rightarrow> Inl e | Inr rs \<Rightarrow> Inr (r # rs)))"

text \<open>\<open>insert_top_coins\<close>: nothing for an empty list; otherwise, in one transaction,
  DELETE FROM coins followed by INSERT OR REPLACE of every coin.\<close>

definition insert_top_coins ::
  "(pyval \<Rightarrow> string) \<Rightarrow> db \<Rightarrow> coin list \<Rightarrow> string \<Rightarrow> string \<Rightarrow> db \<times> exn option"
where
  "insert_top_coins to_text conn coins source now =
     (if coins = [] then (conn, None)
      else with_conn conn (\<lambda>c.
        let deleted = c\<lparr>coins_tbl := []\<rparr>
        in case bind_all (coin_to_row to_text source now) coins of
             Inl e \<Rightarrow> Inl e
           | Inr rows \<Rightarrow>
               Inr (deleted\<lparr>coins_tbl := executemany c_symbol (coins_tbl deleted) rows\<rparr>)))"

section \<open>filter3: the fetch dispatcher\<close>

subsection \<open>Strategy selection\<close>

datatype mode = NoUpdates | BulkMode | PerSymbolMode

text \<open>
  \<open>run_history_fetch\<close>, the choice of the strategy: \<open>ranges\<close> is the set of
  (start_date, end_date) pairs of the plan.
\<close>

definition ranges :: "plan_entry list \<Rightarrow> (date \<times> date) set" where
  "ranges plan = set (map (\<lambda>p. (start_date p, end_date p)) plan)"

definition select_mode :: "plan_entry list \<Rightarrow> mode" where
  "select_mode plan =
     (let total = length plan in
      if total = 0 then NoUpdates
      else if card (ranges plan) = 1 \<and> total > 1 then BulkMode
      else PerSymbolMode)"

subsection \<open>The quote source and the completion loop\<close>

text \<open>
  One call to the quote source (\<open>yf.download\<close>, \<open>Ticker.history\<close>) either raises
  or returns a pandas frame. Frames are opaque (\<open>'df\<close>): the model takes
  \<open>df.empty\<close> and the row parsers as parameters.
\<close>

datatype 'df fetched = Raised exn | Returned 'df

text \<open>
  The loop over \<open>as_completed(futures)\<close>, common to both modes: the workers' results
  arrive in completion order; \<open>fut.result()\<close> re-raises what the worker raised, which
  ends the run with the rows persisted so far; non-empty rows are persisted at once.
\<close>

fun persist_results :: "db \<Rightarrow> (exn + bar list) list \<Rightarrow> db \<times> exn option" where
  "persist_results conn [] = (conn, None)"
| "persist_results conn (Inl e # rs) = (conn, Some e)"
| "persist_results conn (Inr rows # rs) =
     persist_results (if rows \<noteq> [] then insert_daily_history conn rows else conn) rs"

subsection \<open>Bulk mode\<close>

text \<open>\<open>range(0, n, step)\<close> for the batch starts: ValueError for step 0, empty for a
  negative step.\<close>

definition batch_starts :: "nat \<Rightarrow> int \<Rightarrow> exn + nat list" where
  "batch_starts n step =
     (if step = 0 then Inl ValueError
      else if step < 0 then Inr []
      else Inr (map (\<lambda>k. k * nat step) [0..<(n + nat step - 1) div nat step]))"

text \<open>The slice \<open>xs[i : i + width]\<close> for \<open>0 \<le> i\<close> and \<open>0 < width\<close>.\<close>

definition slice :: "'a list \<Rightarrow> nat \<Rightarrow> nat \<Rightarrow> 'a list" where
  "slice xs i width = take width (drop i xs)"

definition make_batches :: "string list \<Rightarrow> int \<Rightarrow> exn + string list list" where
  "make_batches symbols BULK_BATCH_SIZE =
     (case batch_starts (length symbols) BULK_BATCH_SIZE of
        Inl e \<Rightarrow> Inl e
      | Inr starts \<Rightarrow> Inr (map (\<lambda>i. slice symbols i (nat BULK_BATCH_SIZE)) starts))"

text \<open>
  The jobs \<open>bulk_download\<close> submits: one per batch, each with the start date of the
  first plan entry and the day after its end date (the source's end is exclusive).
  The plan's dates are the strings the planner printed, so \<open>strptime\<close> accepts them;
  adding the day raises OverflowError past the calendar.
\<close>

record job =
  tickers :: "string list"
  j_start :: date
  j_end :: date

definition bulk_jobs :: "plan_entry list \<Rightarrow> int \<Rightarrow> exn + job list" where
  "bulk_jobs plan BULK_BATCH_SIZE =
     (case plan of
        [] \<Rightarrow> Inr []
      | p # _ \<Rightarrow>
         (case date_add (end_date p) 1 of
            Inl e \<Rightarrow> Inl e
          | Inr end_plus_one \<Rightarrow>
             (case make_batches (map p_symbol plan) BULK_BATCH_SIZE of
                Inl e \<Rightarrow> Inl e
              | Inr batches \<Rightarrow>
                  Inr (map (\<lambda>b. \<lparr>tickers = b, j_start = start_date p,
                                  j_end = end_plus_one\<rparr>) batches))))"

text \<open>\<open>wait = min(5.0, 0.5 * attempt)\<close>.\<close>

definition backoff :: "nat \<Rightarrow> real" where
  "backoff attempt = min 5 (0.5 * real attempt)"

text \<open>What one run of \<open>fetch_batch_rows\<close> did: the rows it returned (or the exception
  that left it), the waits it slept, in order, and the number of attempts made.\<close>

record batch_report =
  fetched_rows :: "exn + bar list"
  waits :: "real list"
  attempts :: nat

text \<open>
  The retry loop of \<open>fetch_batch_rows\<close>. \<open>download n\<close> is the outcome of the n-th
  call of \<open>yf.download\<close> for this batch; \<open>parse\<close> is \<open>_parse_batch_df\<close>.
\<close>

function fetch_batch_loop ::
  "(nat \<Rightarrow> 'df fetched) \<Rightarrow> ('df \<Rightarrow> bool) \<Rightarrow> ('df \<Rightarrow> exn + bar list) \<Rightarrow> int \<Rightarrow>
   nat \<Rightarrow> real list \<Rightarrow> batch_report"
where
  "fetch_batch_loop download is_empty parse BULK_MAX_RETRIES attempt slept =
     (if int attempt < BULK_MAX_RETRIES then
        (case download (attempt + 1) of
           Raised e \<Rightarrow>
             fetch_batch_loop download is_empty parse BULK_MAX_RETRIES (attempt + 1)
               (slept @ [backoff (attempt + 1)])
         | Returned df \<Rightarrow>
             if is_empty df
             then \<lparr>fetched_rows = Inr [], waits = slept, attempts = attempt + 1\<rparr>
             else \<lparr>fetched_rows = parse df, waits = slept, attempts = attempt + 1\<rparr>)
      else \<lparr>fetched_rows = Inr [], waits = slept, attempts = attempt\<rparr>)"
  by pat_completeness auto
termination
  by (relation "measure (\<lambda>(download, is_empty, parse, m, attempt, slept). nat (m - int attempt))")
     auto

definition fetch_batch_rows ::
  "(nat \<Rightarrow> 'df fetched) \<Rightarrow> ('df \<Rightarrow> bool) \<Rightarrow> ('df \<Rightarrow> exn + bar list) \<Rightarrow> int \<Rightarrow> batch_report"
where
  "fetch_batch_rows download is_empty parse BULK_MAX_RETRIES =
     fetch_batch_loop download is_empty parse BULK_MAX_RETRIES 0 []"

text \<open>
  \<open>bulk_download\<close>: \<open>download j n\<close> is the n-th call for job j, \<open>parse df b\<close> parses
  a frame for the batch b, \<open>as_completed\<close> is the order in which the pool finishes
  the jobs.
\<close>

definition bulk_download ::
  "(job \<Rightarrow> nat \<Rightarrow> 'df fetched) \<Rightarrow> ('df \<Rightarrow> bool) \<Rightarrow> ('df \<Rightarrow> string list \<Rightarrow> exn + bar list) \<Rightarrow>
   int \<Rightarrow> int \<Rightarrow> ((exn + bar list) list \<Rightarrow> (exn + bar list) list) \<Rightarrow>
   db \<Rightarrow> plan_entry list \<Rightarrow> db \<times> exn option"
where
  "bulk_download download is_empty parse BULK_BATCH_SIZE BULK_MAX_RETRIES as_completed
     conn plan =
     (if plan = [] then (conn, None)
      else
        (case bulk_jobs plan BULK_BATCH_SIZE of
           Inl e \<Rightarrow> (conn, Some e)
         | Inr jobs \<Rightarrow>
             persist_results conn
               (as_completed
                 (map (\<lambda>j. fetched_rows
                        (fetch_batch_rows (download j) is_empty (\<lambda>df. parse df (tickers j))
                           BULK_MAX_RETRIES))
                      jobs))))"

subsection \<open>Per-symbol mode\<close>

text \<open>
  The worker \<open>fetch_symbol_rows\<close>. \<open>history with_timeout item_symbol start end\<close> is one
  call of \<open>Ticker(symbol).history\<close>, with or without the timeout argument. A TypeError
  of the first call is handled by calling again without the timeout; what that second
  call raises is raised inside the handler and leaves the worker. \<open>rows_of\<close> is the
  loop over \<open>df.iterrows()\<close>. The result carries the number of calls made.
\<close>

definition fetch_symbol_rows ::
  "(bool \<Rightarrow> string \<Rightarrow> date \<Rightarrow> date \<Rightarrow> 'df fetched) \<Rightarrow> ('df \<Rightarrow> bool) \<Rightarrow>
   ('df \<Rightarrow> string \<Rightarrow> exn + bar list) \<Rightarrow> plan_entry \<Rightarrow> (exn + bar list) \<times> nat"
where
  "fetch_symbol_rows history is_empty rows_of item =
     (case date_add (end_date item) 1 of
        Inl e \<Rightarrow> (Inl e, 0)
      | Inr end_plus_one \<Rightarrow>
         (let parsed = (\<lambda>df. if is_empty df then Inr [] else rows_of df (p_symbol item))
          in case history True (p_symbol item) (start_date item) end_plus_one of
               Returned df \<Rightarrow> (parsed df, 1)
             | Raised e \<Rightarrow>
                 if e = TypeError then
                   (case history False (p_symbol item) (start_date item) end_plus_one of
                      Returned df \<Rightarrow> (parsed df, 2)
                    | Raised e' \<Rightarrow> (Inl e', 2))
                 else (Inr [], 1)))"

subsection \<open>The dispatcher\<close>

definition run_history_fetch ::
  "(job \<Rightarrow> nat \<Rightarrow> 'df fetched) \<Rightarrow> (bool \<Rightarrow> string \<Rightarrow> date \<Rightarrow> date \<Rightarrow> 'df fetched) \<Rightarrow>
   ('df \<Rightarrow> bool) \<Rightarrow> ('df \<Rightarrow> string list \<Rightarrow> exn + bar list) \<Rightarrow>
   ('df \<Rightarrow> string \<Rightarrow> exn + bar list) \<Rightarrow> int \<Rightarrow> int \<Rightarrow>
   ((exn + bar list) list \<Rightarrow> (exn + bar list) list) \<Rightarrow>
   db \<Rightarrow> plan_entry list \<Rightarrow> db \<times> exn option"
where
  "run_history_fetch download history is_empty parse rows_of BULK_BATCH_SIZE BULK_MAX_RETRIES
     as_completed conn plan =
     (case select_mode plan of
        NoUpdates \<Rightarrow> (conn, None)
      | BulkMode \<Rightarrow>
          bulk_download download is_empty parse BULK_BATCH_SIZE BULK_MAX_RETRIES as_completed
            conn plan
      | PerSymbolMode \<Rightarrow>
          persist_results conn
            (as_completed (map (\<lambda>item. fst (fetch_symbol_rows history is_empty rows_of item))
               plan)))"

section \<open>filter1: the universe selector\<close>

subsection \<open>Python operations on decoded JSON\<close>

text \<open>Truth value of a Python value (\<open>not x\<close>, \<open>x or y\<close>).\<close>

fun truthy :: "pyval \<Rightarrow> bool" where
  "truthy PNone = False"
| "truthy (PBool b) = b"
| "truthy (PInt i) = (i \<noteq> 0)"
| "truthy (PFloat r) = (r \<noteq> 0)"
| "truthy (PStr s) = (s \<noteq> [])"
| "truthy (PList l) = (l \<noteq> [])"
| "truthy (PDict d) = (d \<noteq> [])"

text \<open>\<open>x.get(key, default)\<close>: only a dictionary has \<open>get\<close>; on any other value the
  attribute lookup raises AttributeError.\<close>

fun py_get :: "pyval \<Rightarrow> string \<Rightarrow> pyval \<Rightarrow> exn + pyval" where
  "py_get (PDict d) key dflt = Inr (case map_of d key of Some v \<Rightarrow> v | None \<Rightarrow> dflt)"
| "py_get v key dflt = Inl AttributeError"

text \<open>\<open>x[0]\<close>: the first element of a list, the first character of a text; a
  dictionary decoded from JSON has only text keys (KeyError), an empty sequence
  raises IndexError, anything else is not subscriptable (TypeError).\<close>

fun py_index0 :: "pyval \<Rightarrow> exn + pyval" where
  "py_index0 (PList (x # xs)) = Inr x"
| "py_index0 (PList []) = Inl IndexError"
| "py_index0 (PStr (c # cs)) = Inr (PStr [c])"
| "py_index0 (PStr []) = Inl IndexError"
| "py_index0 (PDict d) = Inl KeyError"
| "py_index0 v = Inl TypeError"

text \<open>\<open>str(x)\<close>: a text is itself, None prints as None, the booleans as True and
  False; \<open>render\<close> is the printed form of the numbers, lists and dictionaries.\<close>

fun py_str :: "(pyval \<Rightarrow> string) \<Rightarrow> pyval \<Rightarrow> string" where
  "py_str render (PStr s) = s"
| "py_str render PNone = ''None''"
| "py_str render (PBool b) = (if b then ''True'' else ''False'')"
| "py_str render v = render v"

subsection \<open>Fetching one ranking page\<close>

text \<open>What one mirror answers to the GET of a page: \<open>requests.get\<close>,
  \<open>raise_for_status\<close> or \<open>resp.json()\<close> raises, or the body decodes to a value.\<close>

datatype response = RequestFailed exn | Json pyval

text \<open>What \<open>_fetch_page_json\<close> makes of one mirror: the list of quotes it returns, a
  silent \<open>continue\<close> (no results, or quotes that are no list), or an exception caught
  and kept in \<open>last_err\<close>.\<close>

datatype mirror_outcome = Quotes "pyval list" | Skipped | Failed exn

definition try_mirror :: "response \<Rightarrow> mirror_outcome" where
  "try_mirror r =
     (case r of
        RequestFailed e \<Rightarrow> Failed e
      | Json data \<Rightarrow>
         (case py_get data ''finance'' (PDict []) of
            Inl e \<Rightarrow> Failed e
          | Inr finance \<Rightarrow>
             (case py_get finance ''result'' (PList []) of
                Inl e \<Rightarrow> Failed e
              | Inr results \<Rightarrow>
                  if \<not> truthy results then Skipped
                  else
                    (case py_index0 results of
                       Inl e \<Rightarrow> Failed e
                     | Inr first \<Rightarrow>
                        (case py_get first ''quotes'' (PList []) of
                           Inl e \<Rightarrow> Failed e
                         | Inr quotes \<Rightarrow>
                            (case quotes of PList qs \<Rightarrow> Quotes qs | _ \<Rightarrow> Skipped))))))"

text \<open>The loop over YF_SCREENER_URLS; the list holds what each mirror answers, in the
  order of the URLs. A mirror is asked only when the loop reaches it.\<close>

fun fetch_mirrors :: "response list \<Rightarrow> exn option \<Rightarrow> exn + pyval list" where
  "fetch_mirrors [] last_err =
     (case last_err of Some e \<Rightarrow> Inl RuntimeError | None \<Rightarrow> Inr [])"
| "fetch_mirrors (r # rs) last_err =
     (case try_mirror r of
        Failed e \<Rightarrow> fetch_mirrors rs (Some e)
      | Skipped \<Rightarrow> fetch_mirrors rs last_err
      | Quotes qs \<Rightarrow> Inr qs)"

definition fetch_page_json :: "response list \<Rightarrow> exn + pyval list" where
  "fetch_page_json mirrors = fetch_mirrors mirrors None"

subsection \<open>Collecting, ranking and persisting\<close>

text \<open>\<open>_extract_market_cap\<close>. \<open>float_of\<close> is the builtin \<open>float\<close>: TypeError for
  None, lists and dictionaries, ValueError for a text that is no number (the texts
  nan and inf are numbers to it), OverflowError for an integer too large; only the
  first two are caught.\<close>

definition extract_market_cap :: "(pyval \<Rightarrow> exn + pyfloat) \<Rightarrow> pyval \<Rightarrow> exn + pyfloat" where
  "extract_market_cap float_of q =
     (case py_get q ''marketCap'' PNone of
        Inl e \<Rightarrow> Inl e
      | Inr raw_mcap \<Rightarrow>
         (case (case raw_mcap of PDict d \<Rightarrow> py_get raw_mcap ''raw'' PNone | _ \<Rightarrow> Inr raw_mcap) of
            Inl e \<Rightarrow> Inl e
          | Inr raw \<Rightarrow>
             (case float_of raw of
                Inr v \<Rightarrow> Inr v
              | Inl e \<Rightarrow> if e = TypeError \<or> e = ValueError then Inr (Fin 0) else Inl e)))"

text \<open>The state of the collection: \<open>collected\<close>, \<open>seen_symbols\<close>, \<open>new_count\<close>.\<close>

record collection =
  collected :: "coin list"
  seen_symbols :: "string set"
  new_count :: nat

text \<open>The body of \<open>for q in quotes\<close>; a quote that is no dictionary raises.\<close>

definition add_quote ::
  "(pyval \<Rightarrow> string) \<Rightarrow> (pyval \<Rightarrow> exn + pyfloat) \<Rightarrow> collection \<Rightarrow> pyval \<Rightarrow> exn + collection"
where
  "add_quote render float_of st q =
     (case py_get q ''symbol'' PNone of
        Inl e \<Rightarrow> Inl e
      | Inr sv \<Rightarrow>
         (let smb = py_str render sv in
          if smb = [] \<or> smb \<in> seen_symbols st then Inr st
          else
            (case py_get q ''shortName'' PNone of
               Inl e \<Rightarrow> Inl e
             | Inr short \<Rightarrow>
                (case py_get q ''longName'' PNone of
                   Inl e \<Rightarrow> Inl e
                 | Inr long \<Rightarrow>
                    (let nm = (if truthy short then short
                               else if truthy long then long else PStr smb)
                     in case extract_market_cap float_of q of
                          Inl e \<Rightarrow> Inl e
                        | Inr mcap_val \<Rightarrow>
                            Inr \<lparr>collected = collected st @
                                   [\<lparr>symbol = smb, name = nm, market_cap = mcap_val,
                                     rank = None\<rparr>],
                                 seen_symbols = insert smb (seen_symbols st),
                                 new_count = new_count st + 1\<rparr>)))))"

fun quote_loop ::
  "(pyval \<Rightarrow> string) \<Rightarrow> (pyval \<Rightarrow> exn + pyfloat) \<Rightarrow> collection \<Rightarrow> pyval list \<Rightarrow> exn + collection"
where
  "quote_loop render float_of st [] = Inr st"
| "quote_loop render float_of st (q # qs) =
     (case add_quote render float_of st q of
        Inl e \<Rightarrow> Inl e
      | Inr st' \<Rightarrow> quote_loop render float_of st' qs)"

text \<open>
  \<open>for page in range(max_pages)\<close>, by the number of pages left. \<open>mirrors start count\<close>
  is what the mirrors answer for that page. A page that raises ends the loop, as do a
  page without quotes, a page without new symbols and reaching the target count.
\<close>

fun page_loop ::
  "(nat \<Rightarrow> nat \<Rightarrow> response list) \<Rightarrow> (pyval \<Rightarrow> string) \<Rightarrow> (pyval \<Rightarrow> exn + pyfloat) \<Rightarrow>
   nat \<Rightarrow> nat \<Rightarrow> nat \<Rightarrow> nat \<Rightarrow> coin list \<Rightarrow> string set \<Rightarrow> exn + coin list"
where
  "page_loop mirrors render float_of target_count page_size 0 start coll seen = Inr coll"
| "page_loop mirrors render float_of target_count page_size (Suc pages_left) start coll seen =
     (case fetch_page_json (mirrors start page_size) of
        Inl e \<Rightarrow> Inr coll
      | Inr quotes \<Rightarrow>
         (case quote_loop render float_of
                 \<lparr>collected = coll, seen_symbols = seen, new_count = 0\<rparr> quotes of
            Inl e \<Rightarrow> Inl e
          | Inr st \<Rightarrow>
              if quotes = [] then Inr (collected st)
              else if new_count st = 0 then Inr (collected st)
              else if length (collected st) \<ge> target_count then Inr (collected st)
              else page_loop mirrors render float_of target_count page_size pages_left
                     (start + page_size) (collected st) (seen_symbols st)))"

text \<open>
  \<open>collected.sort(key=market_cap, reverse=True)\<close>. \<open>list.sort\<close> is stable, compares the
  keys with \<open><\<close> only and, with reverse=True, keeps records of equal keys in their
  order. It is the stable insertion sort here: each record, from the last to the
  first, is put in front of the first record whose key is not greater than its own.
  When \<open><\<close> orders the keys totally (no NaN among them) every stable sort gives this
  list.
\<close>

fun insort_desc :: "coin \<Rightarrow> coin list \<Rightarrow> coin list" where
  "insort_desc x [] = [x]"
| "insort_desc x (y # ys) =
     (if py_lt (market_cap x) (market_cap y) then y # insort_desc x ys else x # y # ys)"

definition sort_by_market_cap :: "coin list \<Rightarrow> coin list" where
  "sort_by_market_cap coins = foldr insort_desc coins []"

text \<open>\<open>for i, c in enumerate(collected, start=1): c["rank"] = i\<close>.\<close>

definition assign_ranks :: "coin list \<Rightarrow> coin list" where
  "assign_ranks coins =
     map (\<lambda>(i, c). c\<lparr>rank := Some i\<rparr>) (zip [1..<Suc (length coins)] coins)"

definition select_universe ::
  "(nat \<Rightarrow> nat \<Rightarrow> response list) \<Rightarrow> (pyval \<Rightarrow> string) \<Rightarrow> (pyval \<Rightarrow> exn + pyfloat) \<Rightarrow>
   nat \<Rightarrow> nat \<Rightarrow> nat \<Rightarrow> exn + coin list"
where
  "select_universe mirrors render float_of target_count page_size max_pages =
     (case page_loop mirrors render float_of target_count page_size max_pages 0 [] {} of
        Inl e \<Rightarrow> Inl e
      | Inr coll \<Rightarrow> Inr (assign_ranks (take target_count (sort_by_market_cap coll))))"

text \<open>\<open>run_filter1\<close>: target_count = 1000, page_size = 100, max_pages = 20; the
  ranked list is written with \<open>insert_top_coins\<close> and returned.\<close>

definition run_filter1 ::
  "(nat \<Rightarrow> nat \<Rightarrow> response list) \<Rightarrow> (pyval \<Rightarrow> string) \<Rightarrow> (pyval \<Rightarrow> exn + pyfloat) \<Rightarrow>
   (pyval \<Rightarrow> string) \<Rightarrow> string \<Rightarrow> db \<Rightarrow> exn + db \<times> coin list"
where
  "run_filter1 mirrors render float_of to_text now conn =
     (case select_universe mirrors render float_of 1000 100 20 of
        Inl e \<Rightarrow> Inl e
      | Inr coins \<Rightarrow>
         (case insert_top_coins to_text conn coins ''yahoo_screener_api'' now of
            (conn', None) \<Rightarrow> Inr (conn', coins)
          | (conn', Some e) \<Rightarrow> Inl e))"

text \<open>The plan of the end-to-end scenario: two symbols, one shared range.\<close>

definition btc_eth_uniform :: "plan_entry list" where
  "btc_eth_uniform =
     [\<lparr>p_symbol = ''BTC'', start_date = 739037, end_date = 739047\<rparr>,
      \<lparr>p_symbol = ''ETH'', start_date = 739037, end_date = 739047\<rparr>]"

text \<open>Sample inputs of the planner: four symbols, of which ETH and XRP are covered,
  ADA has an unparseable coverage value and BTC has none.\<close>

definition sample_coins :: "coin list" where
  "sample_coins =
     [\<lparr>symbol = ''BTC'', name = PStr ''Bitcoin'', market_cap = Fin 100, rank = Some 1\<rparr>,
      \<lparr>symbol = ''ETH'', name = PStr ''Ethereum'', market_cap = Fin 50, rank = Some 2\<rparr>,
      \<lparr>symbol = ''XRP'', name = PStr ''XRP'', market_cap = Fin 20, rank = Some 3\<rparr>,
      \<lparr>symbol = ''ADA'', name = PStr ''Cardano'', market_cap = Fin 10, rank = Some 4\<rparr>]"

definition sample_strptime :: "string \<Rightarrow> date option" where
  "sample_strptime s =
     (if s = ''2024-06-05'' then Some 739042
      else if s = ''2024-06-10'' then Some 739047
      else None)"

definition sample_last_dates :: "string \<rightharpoonup> string" where
  "sample_last_dates =
     [''ETH'' \<mapsto> ''2024-06-05'', ''XRP'' \<mapsto> ''2024-06-10'', ''ADA'' \<mapsto> ''garbage'']"

text \<open>Sample bars: two with the same (symbol, date) key and different values.\<close>

definition bar1 :: bar where
  "bar1 = \<lparr>b_symbol = ''BTC'', b_date = ''2024-06-10'', b_open = 1, b_high = 2, b_low = 1,
            b_close = 2, b_volume = 10\<rparr>"

definition bar2 :: bar where
  "bar2 = \<lparr>b_symbol = ''BTC'', b_date = ''2024-06-10'', b_open = 3, b_high = 4, b_low = 3,
            b_close = 4, b_volume = 20\<rparr>"

definition bar3 :: bar where
  "bar3 = \<lparr>b_symbol = ''ETH'', b_date = ''2024-06-10'', b_open = 5, b_high = 6, b_low = 5,
            b_close = 6, b_volume = 30\<rparr>"

definition db1 :: db where
  "db1 = \<lparr>coins_tbl = [], daily_history = [bar3, bar1]\<rparr>"

text \<open>A store whose universe snapshot holds one row of an earlier run.\<close>

definition old_row :: coin_row where
  "old_row = \<lparr>c_symbol = ''DOGE'', c_name = Some ''Dogecoin'', c_market_cap = Some (Fin 7), c_rank = 1,
               c_source = ''yahoo_screener_api'', c_last_updated = ''2024-06-09 00:00:00''\<rparr>"

definition db2 :: db where
  "db2 = \<lparr>coins_tbl = [old_row], daily_history = [bar3]\<rparr>"

text \<open>A uniform plan of five symbols.\<close>

definition sample_plan5 :: "plan_entry list" where
  "sample_plan5 =
     map (\<lambda>s. \<lparr>p_symbol = s, start_date = 739037, end_date = 739047\<rparr>)
       [''BTC'', ''ETH'', ''XRP'', ''ADA'', ''SOL'']"

text \<open>Quote sources for one batch: one that fails twice and then answers, one that
  always fails. Frames are lists of bars here.\<close>

definition flaky :: "nat \<Rightarrow> bar list fetched" where
  "flaky n = (if n = 3 then Returned [bar1] else Raised NetworkError)"

definition down :: "nat \<Rightarrow> bar list fetched" where
  "down n = Raised NetworkError"

text \<open>A plan entry, a quote source that is unreachable, and one that rejects the
  timeout argument and is unreachable without it.\<close>

definition item_btc :: plan_entry where
  "item_btc = \<lparr>p_symbol = ''BTC'', start_date = 739037, end_date = 739047\<rparr>"

definition history_unreachable :: "bool \<Rightarrow> string \<Rightarrow> date \<Rightarrow> date \<Rightarrow> bar list fetched" where
  "history_unreachable with_timeout s a b = Raised NetworkError"

definition history_no_timeout_arg :: "bool \<Rightarrow> string \<Rightarrow> date \<Rightarrow> date \<Rightarrow> bar list fetched" where
  "history_no_timeout_arg with_timeout s a b =
     (if with_timeout then Raised TypeError else Raised NetworkError)"

text \<open>Decoded ranking pages: one with a quote, one without results.\<close>

definition page_ok :: pyval where
  "page_ok = PDict [(''finance'', PDict [(''result'',
      PList [PDict [(''quotes'', PList [PDict [(''symbol'', PStr ''BTC'')]])]])])]"

definition page_no_result :: pyval where
  "page_no_result = PDict [(''finance'', PDict [(''result'', PList [])])]"

text \<open>A rendering of numbers for the samples (they hold no numeric name).\<close>

definition no_text :: "pyval \<Rightarrow> string" where
  "no_text v = []"

text \<open>A symbol record whose name is a list, as a quote with a list-valued shortName
  gives it.\<close>

definition odd_coin :: coin where
  "odd_coin = \<lparr>symbol = ''ODD'', name = PList [PStr ''x''], market_cap = Fin 1, rank = Some 1\<rparr>"

text \<open>Ranking pages for the universe selector: ETH comes on two pages, XRP has neither
  names nor a market cap; the second page is served by the second mirror only.\<close>

definition ranking_page :: "pyval list \<Rightarrow> pyval" where
  "ranking_page qs =
     PDict [(''finance'', PDict [(''result'', PList [PDict [(''quotes'', PList qs)]])])]"

definition quote_btc :: pyval where
  "quote_btc = PDict [(''symbol'', PStr ''BTC''), (''shortName'', PStr ''Bitcoin''),
                      (''marketCap'', PFloat 100)]"

definition quote_eth :: pyval where
  "quote_eth = PDict [(''symbol'', PStr ''ETH''), (''longName'', PStr ''Ethereum''),
                      (''marketCap'', PDict [(''raw'', PFloat 500)])]"

definition quote_xrp :: pyval where
  "quote_xrp = PDict [(''symbol'', PStr ''XRP'')]"

definition sample_mirrors :: "nat \<Rightarrow> nat \<Rightarrow> response list" where
  "sample_mirrors start n =
     (if start = 0 then [Json (ranking_page [quote_btc, quote_eth]), Json page_no_result]
      else if start = 100
      then [RequestFailed NetworkError, Json (ranking_page [quote_eth, quote_xrp])]
      else [Json page_no_result, Json page_no_result])"

text \<open>\<open>float\<close> on the values of the samples: numbers, the text nan, other texts.\<close>

definition sample_float :: "pyval \<Rightarrow> exn + pyfloat" where
  "sample_float v =
     (case v of PFloat r \<Rightarrow> Inr (Fin r) | PInt i \<Rightarrow> Inr (Fin (real_of_int i))
      | PStr s \<Rightarrow> if s = ''nan'' then Inr NaN else Inl ValueError
      | _ \<Rightarrow> Inl TypeError)"

text \<open>A single ranking page of two quotes, the first with the text nan as market
  cap.\<close>

definition quote_nan :: pyval where
  "quote_nan = PDict [(''symbol'', PStr ''AAA''), (''marketCap'', PStr ''nan'')]"

definition quote_five :: pyval where
  "quote_five = PDict [(''symbol'', PStr ''BBB''), (''marketCap'', PFloat 5)]"

definition nan_mirrors :: "nat \<Rightarrow> nat \<Rightarrow> response list" where
  "nan_mirrors start n =
     (if start = 0 then [Json (ranking_page [quote_nan, quote_five]), Json page_no_result]
      else [Json page_no_result, Json page_no_result])"
section \<open>Verified properties\<close>

subsection \<open>Strategy selection\<close>

lemma card_image_one_iff:
  assumes "xs \<noteq> []"
  shows "card (f ` set xs) = 1 \<longleftrightarrow> (\<forall>x\<in>set xs. \<forall>y\<in>set xs. f x = f y)"
proof
  assume "card (f ` set xs) = 1"
  then obtain v where v: "f ` set xs = {v}"
    by (rule card_1_singletonE)
  have "f x = v" if "x \<in> set xs" for x
    using that v by blast
  then show "\<forall>x\<in>set xs. \<forall>y\<in>set xs. f x = f y" by simp
next
  assume same: "\<forall>x\<in>set xs. \<forall>y\<in>set xs. f x = f y"
  from assms obtain a where a: "a \<in> set xs" by (cases xs) auto
  have "f ` set xs \<subseteq> {f a}" using same a by blast
  moreover have "f a \<in> f ` set xs" using a by blast
  ultimately have "f ` set xs = {f a}" by blast
  then show "card (f ` set xs) = 1" by simp
qed

lemma ranges_image: "ranges plan = (\<lambda>p. (start_date p, end_date p)) ` set plan"
  unfolding ranges_def by (rule set_map)

lemma card_ranges_one:
  assumes "plan \<noteq> []"
  shows "card (ranges plan) = 1 \<longleftrightarrow>
        (\<forall>p\<in>set plan. \<forall>q\<in>set plan. start_date p = start_date q \<and> end_date p = end_date q)"
  unfolding ranges_image card_image_one_iff [OF assms] prod.inject ..

lemma select_mode_nonempty:
  assumes "plan \<noteq> []"
  shows "select_mode plan =
     (if card (ranges plan) = 1 \<and> length plan > 1 then BulkMode else PerSymbolMode)"
proof -
  have "length plan \<noteq> 0" using assms by simp
  then show ?thesis unfolding select_mode_def Let_def by (rule if_not_P)
qed

lemma mode_of_if:
  "m = (if P then BulkMode else PerSymbolMode) \<Longrightarrow>
   (m = BulkMode \<longleftrightarrow> P) \<and> (m \<noteq> BulkMode \<longrightarrow> m = PerSymbolMode)"
  by simp

text \<open>
  C3. For a non-empty plan the dispatcher selects bulk mode exactly when all entries
  share one (start_date, end_date) pair and the plan has more than one entry; in
  every other case (two entries differing in start or end date, or a single entry)
  it runs in per-symbol mode.
\<close>

theorem select_mode_bulk_iff:
  assumes "plan \<noteq> []"
  shows "(select_mode plan = BulkMode \<longleftrightarrow>
            (\<forall>p\<in>set plan. \<forall>q\<in>set plan.
                start_date p = start_date q \<and> end_date p = end_date q)
            \<and> length plan > 1)
         \<and> (select_mode plan \<noteq> BulkMode \<longrightarrow> select_mode plan = PerSymbolMode)"
proof -
  let ?same = "\<forall>p\<in>set plan. \<forall>q\<in>set plan.
                 start_date p = start_date q \<and> end_date p = end_date q"
  have m: "select_mode plan =
             (if ?same \<and> length plan > 1 then BulkMode else PerSymbolMode)"
    unfolding select_mode_nonempty [OF assms] card_ranges_one [OF assms] ..
  show ?thesis by (rule mode_of_if [OF m])
qed

theorem select_mode_bulk_iff_witness:
  "btc_eth_uniform \<noteq> [] \<and> select_mode btc_eth_uniform = BulkMode"
proof -
  have ne: "btc_eth_uniform \<noteq> []" by (simp add: btc_eth_uniform_def)
  have "\<forall>p\<in>set btc_eth_uniform. \<forall>q\<in>set btc_eth_uniform.
          start_date p = start_date q \<and> end_date p = end_date q"
    by (simp add: btc_eth_uniform_def)
  moreover have "length btc_eth_uniform > 1" by (simp add: btc_eth_uniform_def)
  ultimately have "select_mode btc_eth_uniform = BulkMode"
    using select_mode_bulk_iff [OF ne] by blast
  with ne show ?thesis by blast
qed

subsection \<open>The sync planner\<close>

lemma date_add_in_range:
  "date_min \<le> d + n \<Longrightarrow> d + n \<le> date_max \<Longrightarrow> \<bar>n\<bar> \<le> timedelta_max_days \<Longrightarrow>
   date_add d n = Inr (d + n)"
  by (simp add: date_add_def)

lemma date_add_Inr: "date_add d n = Inr r \<Longrightarrow> r = d + n"
  by (simp add: date_add_def split: if_splits)

lemma plan_loop_acc:
  "plan_loop sp ld today ds plan cs =
     (case plan_loop sp ld today ds [] cs of Inl e \<Rightarrow> Inl e | Inr es \<Rightarrow> Inr (plan @ es))"
proof (induction cs arbitrary: plan)
  case Nil
  show ?case by simp
next
  case (Cons c cs)
  show ?case
  proof (cases "coin_start_date sp ld today ds (symbol c)")
    case (Inl e)
    then show ?thesis by simp
  next
    case (Inr start)
    show ?thesis
    proof (cases "start > today")
      case True
      with Inr Cons.IH [of plan] show ?thesis by simp
    next
      case False
      let ?e = "\<lparr>p_symbol = symbol c, start_date = start, end_date = today\<rparr>"
      from Cons.IH [of "plan @ [?e]"] Cons.IH [of "[?e]"] Inr False
      show ?thesis by (simp split: sum.splits)
    qed
  qed
qed

lemma plan_loop_Cons:
  "plan_loop sp ld today ds [] (c # cs) =
     (case coin_start_date sp ld today ds (symbol c) of
        Inl e \<Rightarrow> Inl e
      | Inr start \<Rightarrow>
         (case plan_loop sp ld today ds [] cs of
            Inl e \<Rightarrow> Inl e
          | Inr es \<Rightarrow>
              Inr ((if start > today then []
                    else [\<lparr>p_symbol = symbol c, start_date = start, end_date = today\<rparr>]) @ es)))"
proof (cases "coin_start_date sp ld today ds (symbol c)")
  case (Inl e)
  then show ?thesis by simp
next
  case (Inr start)
  let ?e = "\<lparr>p_symbol = symbol c, start_date = start, end_date = today\<rparr>"
  from Inr plan_loop_acc [of sp ld today ds "[?e]" cs]
  show ?thesis by (simp split: sum.splits)
qed

lemma plan_loop_sound:
  "plan_loop sp ld today ds [] cs = Inr plan \<Longrightarrow> e \<in> set plan \<Longrightarrow>
   (\<exists>c\<in>set cs. p_symbol e = symbol c) \<and>
   coin_start_date sp ld today ds (p_symbol e) = Inr (start_date e) \<and>
   start_date e \<le> today \<and> end_date e = today"
proof (induction cs arbitrary: plan)
  case Nil
  then show ?case by simp
next
  case (Cons c cs)
  from Cons.prems(1) obtain start es where
    st: "coin_start_date sp ld today ds (symbol c) = Inr start" and
    rest: "plan_loop sp ld today ds [] cs = Inr es" and
    pl: "plan = (if start > today then []
                 else [\<lparr>p_symbol = symbol c, start_date = start, end_date = today\<rparr>]) @ es"
    unfolding plan_loop_Cons by (auto split: sum.splits)
  from Cons.prems(2) pl consider
    (hd) "\<not> start > today" "e = \<lparr>p_symbol = symbol c, start_date = start, end_date = today\<rparr>"
    | (tl) "e \<in> set es"
    by (auto split: if_splits)
  then show ?case
  proof cases
    case hd
    with st show ?thesis by simp
  next
    case tl
    from Cons.IH [OF rest tl] show ?thesis by auto
  qed
qed

lemma plan_loop_complete:
  "plan_loop sp ld today ds [] cs = Inr plan \<Longrightarrow> c \<in> set cs \<Longrightarrow>
   \<exists>start. coin_start_date sp ld today ds (symbol c) = Inr start \<and>
     (start \<le> today \<longrightarrow>
        \<lparr>p_symbol = symbol c, start_date = start, end_date = today\<rparr> \<in> set plan)"
proof (induction cs arbitrary: plan)
  case Nil
  then show ?case by simp
next
  case (Cons a cs)
  from Cons.prems(1) obtain start es where
    st: "coin_start_date sp ld today ds (symbol a) = Inr start" and
    rest: "plan_loop sp ld today ds [] cs = Inr es" and
    pl: "plan = (if start > today then []
                 else [\<lparr>p_symbol = symbol a, start_date = start, end_date = today\<rparr>]) @ es"
    unfolding plan_loop_Cons by (auto split: sum.splits)
  show ?case
  proof (cases "c = a")
    case True
    with st pl show ?thesis by auto
  next
    case False
    with Cons.prems(2) have "c \<in> set cs" by simp
    from Cons.IH [OF rest this] pl show ?thesis by auto
  qed
qed

lemma plan_loop_total:
  "(\<And>c. c \<in> set cs \<Longrightarrow> \<exists>s. coin_start_date sp ld today ds (symbol c) = Inr s) \<Longrightarrow>
   \<exists>plan. plan_loop sp ld today ds [] cs = Inr plan"
proof (induction cs)
  case Nil
  show ?case by simp
next
  case (Cons a cs)
  from Cons.prems [of a] obtain s where
    s: "coin_start_date sp ld today ds (symbol a) = Inr s" by auto
  have "\<exists>plan. plan_loop sp ld today ds [] cs = Inr plan"
    by (rule Cons.IH) (simp add: Cons.prems)
  then obtain es where "plan_loop sp ld today ds [] cs = Inr es" ..
  with s show ?case unfolding plan_loop_Cons by simp
qed

lemma plan_loop_skipped:
  assumes "plan_loop sp ld today ds [] cs = Inr plan"
    and "\<And>start. coin_start_date sp ld today ds smb = Inr start \<Longrightarrow> start > today"
  shows "smb \<notin> p_symbol ` set plan"
proof
  assume "smb \<in> p_symbol ` set plan"
  then obtain e where e: "e \<in> set plan" and sy: "p_symbol e = smb" by auto
  from plan_loop_sound [OF assms(1) e] sy
  have "coin_start_date sp ld today ds smb = Inr (start_date e)" and "start_date e \<le> today"
    by simp_all
  with assms(2) [of "start_date e"] show False by simp
qed

lemma coin_start_absent:
  "last_dates smb = None \<Longrightarrow> coin_start_date strptime last_dates today ds smb = Inr ds"
  by (simp add: coin_start_date_def)

lemma coin_start_covered:
  "last_dates smb = Some s \<Longrightarrow> strptime s = Some d \<Longrightarrow>
   coin_start_date strptime last_dates today ds smb = date_add d 1"
  by (simp add: coin_start_date_def)

lemma coin_start_unparseable:
  "last_dates smb = Some s \<Longrightarrow> strptime s = None \<Longrightarrow>
   coin_start_date strptime last_dates today ds smb = date_add today 1"
  by (simp add: coin_start_date_def)

lemma date_add_one:
  "date_min \<le> d + 1 \<Longrightarrow> d + 1 \<le> date_max \<Longrightarrow> date_add d 1 = Inr (d + 1)"
  by (simp add: date_add_def timedelta_max_days_def)

text \<open>
  C1 (as amended). Whenever today minus the default history depth is a date of the
  calendar, and so is D + 1 for every parseable coverage date D of a listed symbol (and
  today + 1 where a listed symbol has an unparseable coverage value), build_update_plan
  returns a plan in which: a listed symbol absent from the coverage map has the entry
  with start = today - depth; a listed symbol with coverage date D has the entry with
  start = D + 1; in both cases there is no entry at all for the symbol when that start
  exceeds today, and no entry of the symbol has another start; every entry has
  end = today, start at most today, and belongs to a listed symbol.
\<close>

theorem build_update_plan_entries:
  assumes today: "date_min \<le> today" "today \<le> date_max"
    and dflt: "date_min \<le> today - depth" "today - depth \<le> date_max"
    and cov0: "\<forall>c\<in>set coins. \<forall>s d. last_dates (symbol c) = Some s \<longrightarrow>
                strptime s = Some d \<longrightarrow> date_min \<le> d + 1 \<and> d + 1 \<le> date_max"
    and bad0: "\<forall>c\<in>set coins. \<forall>s. last_dates (symbol c) = Some s \<longrightarrow>
                strptime s = None \<longrightarrow> today < date_max"
  shows "\<exists>plan. build_update_plan strptime last_dates today depth coins = Inr plan \<and>
     (\<forall>e\<in>set plan. end_date e = today \<and> start_date e \<le> today \<and>
          (\<exists>c\<in>set coins. symbol c = p_symbol e)) \<and>
     (\<forall>c\<in>set coins. last_dates (symbol c) = None \<longrightarrow>
        (if today - depth > today then symbol c \<notin> p_symbol ` set plan
         else \<lparr>p_symbol = symbol c, start_date = today - depth, end_date = today\<rparr> \<in> set plan
            \<and> (\<forall>e\<in>set plan. p_symbol e = symbol c \<longrightarrow> start_date e = today - depth))) \<and>
     (\<forall>c\<in>set coins. \<forall>s D. last_dates (symbol c) = Some s \<longrightarrow> strptime s = Some D \<longrightarrow>
        (if D + 1 > today then symbol c \<notin> p_symbol ` set plan
         else \<lparr>p_symbol = symbol c, start_date = D + 1, end_date = today\<rparr> \<in> set plan
            \<and> (\<forall>e\<in>set plan. p_symbol e = symbol c \<longrightarrow> start_date e = D + 1)))"
proof -
  have cov: "date_min \<le> d + 1 \<and> d + 1 \<le> date_max"
    if "c \<in> set coins" "last_dates (symbol c) = Some s" "strptime s = Some d" for c s d
    using cov0 that by blast
  have bad: "today < date_max"
    if "c \<in> set coins" "last_dates (symbol c) = Some s" "strptime s = None" for c s
    using bad0 that by blast
  let ?ds = "today - depth"
  let ?start = "coin_start_date strptime last_dates today ?ds"
  let ?loop = "plan_loop strptime last_dates today ?ds []"
  have "\<bar>- depth\<bar> \<le> timedelta_max_days"
    using today dflt by (simp add: date_min_def date_max_def timedelta_max_days_def)
  with dflt have ds: "default_start_date today depth = Inr ?ds"
    unfolding default_start_date_def using date_add_in_range [of today "- depth"] by simp
  then have bup: "build_update_plan strptime last_dates today depth coins = ?loop coins"
    by (simp add: build_update_plan_def)
  have ret: "\<exists>s. ?start (symbol c) = Inr s" if c: "c \<in> set coins" for c
  proof (cases "last_dates (symbol c)")
    case None
    then show ?thesis by (simp add: coin_start_absent)
  next
    case (Some s)
    show ?thesis
    proof (cases "strptime s")
      case None
      from bad [OF c Some None] today(1)
      have "date_add today 1 = Inr (today + 1)" by (intro date_add_one) simp_all
      with Some None show ?thesis by (simp add: coin_start_unparseable)
    next
      case (Some d)
      from cov [OF c \<open>last_dates (symbol c) = Some s\<close> Some]
      have "date_add d 1 = Inr (d + 1)" by (intro date_add_one) simp_all
      with Some \<open>last_dates (symbol c) = Some s\<close> show ?thesis
        by (simp add: coin_start_covered)
    qed
  qed
  from plan_loop_total [of coins strptime last_dates today ?ds] ret
  obtain plan where plan: "?loop coins = Inr plan" by blast
  have snd: "coin_start_date strptime last_dates today ?ds (p_symbol e) = Inr (start_date e)"
       "start_date e \<le> today" "end_date e = today" "\<exists>c\<in>set coins. symbol c = p_symbol e"
    if "e \<in> set plan" for e
    using plan_loop_sound [OF plan that] by auto
  have absent: "if ?ds > today then symbol c \<notin> p_symbol ` set plan
         else \<lparr>p_symbol = symbol c, start_date = ?ds, end_date = today\<rparr> \<in> set plan
            \<and> (\<forall>e\<in>set plan. p_symbol e = symbol c \<longrightarrow> start_date e = ?ds)"
    if c: "c \<in> set coins" and n: "last_dates (symbol c) = None" for c
  proof -
    have st: "?start (symbol c) = Inr ?ds" using n by (rule coin_start_absent)
    show ?thesis
    proof (cases "?ds > today")
      case True
      have "symbol c \<notin> p_symbol ` set plan"
        by (rule plan_loop_skipped [OF plan]) (use st True in simp)
      with True show ?thesis by simp
    next
      case False
      from plan_loop_complete [OF plan c] st False
      have "\<lparr>p_symbol = symbol c, start_date = ?ds, end_date = today\<rparr> \<in> set plan" by simp
      moreover have "start_date e = ?ds" if "e \<in> set plan" "p_symbol e = symbol c" for e
        using snd(1) [OF that(1)] st that(2) by simp
      ultimately show ?thesis using False by simp
    qed
  qed
  have covered: "if D + 1 > today then symbol c \<notin> p_symbol ` set plan
         else \<lparr>p_symbol = symbol c, start_date = D + 1, end_date = today\<rparr> \<in> set plan
            \<and> (\<forall>e\<in>set plan. p_symbol e = symbol c \<longrightarrow> start_date e = D + 1)"
    if c: "c \<in> set coins" and s: "last_dates (symbol c) = Some s" and D: "strptime s = Some D"
    for c s D
  proof -
    from cov [OF c s D] have "date_add D 1 = Inr (D + 1)" by (intro date_add_one) simp_all
    with s D have st: "?start (symbol c) = Inr (D + 1)" by (simp add: coin_start_covered)
    show ?thesis
    proof (cases "D + 1 > today")
      case True
      have "symbol c \<notin> p_symbol ` set plan"
        by (rule plan_loop_skipped [OF plan]) (use st True in simp)
      with True show ?thesis by simp
    next
      case False
      from plan_loop_complete [OF plan c] st False
      have "\<lparr>p_symbol = symbol c, start_date = D + 1, end_date = today\<rparr> \<in> set plan" by simp
      moreover have "start_date e = D + 1" if "e \<in> set plan" "p_symbol e = symbol c" for e
        using snd(1) [OF that(1)] st that(2) by simp
      ultimately show ?thesis using False by simp
    qed
  qed
  from bup plan have "build_update_plan strptime last_dates today depth coins = Inr plan"
    by simp
  moreover have "\<forall>e\<in>set plan. end_date e = today \<and> start_date e \<le> today \<and>
          (\<exists>c\<in>set coins. symbol c = p_symbol e)"
    using snd by blast
  ultimately show ?thesis using absent covered by blast
qed

lemma sample_plan:
  "build_update_plan sample_strptime sample_last_dates 739047 10 sample_coins =
     Inr [\<lparr>p_symbol = ''BTC'', start_date = 739037, end_date = 739047\<rparr>,
          \<lparr>p_symbol = ''ETH'', start_date = 739043, end_date = 739047\<rparr>]"
  by (simp add: build_update_plan_def default_start_date_def date_add_def date_min_def
      date_max_def timedelta_max_days_def sample_coins_def coin_start_date_def
      sample_last_dates_def sample_strptime_def)

theorem build_update_plan_entries_witness:
  "\<exists>plan. build_update_plan sample_strptime sample_last_dates 739047 10 sample_coins = Inr plan
     \<and> \<lparr>p_symbol = ''BTC'', start_date = 739037, end_date = 739047\<rparr> \<in> set plan
     \<and> \<lparr>p_symbol = ''ETH'', start_date = 739043, end_date = 739047\<rparr> \<in> set plan
     \<and> ''XRP'' \<notin> p_symbol ` set plan"
proof -
  let ?btc = "\<lparr>symbol = ''BTC'', name = PStr ''Bitcoin'', market_cap = Fin 100, rank = Some 1\<rparr>"
  let ?eth = "\<lparr>symbol = ''ETH'', name = PStr ''Ethereum'', market_cap = Fin 50, rank = Some 2\<rparr>"
  let ?xrp = "\<lparr>symbol = ''XRP'', name = PStr ''XRP'', market_cap = Fin 20, rank = Some 3\<rparr>"
  have h1: "date_min \<le> (739047::int)" and h2: "(739047::int) \<le> date_max"
    and h3: "date_min \<le> (739047::int) - 10" and h4: "(739047::int) - 10 \<le> date_max"
    by (simp_all add: date_min_def date_max_def)
  have "date_min \<le> d + 1 \<and> d + 1 \<le> date_max" if "sample_strptime s = Some d" for s d
    using that
    by (auto simp: sample_strptime_def date_min_def date_max_def split: if_splits)
  then have h5: "\<forall>c\<in>set sample_coins. \<forall>s d. sample_last_dates (symbol c) = Some s \<longrightarrow>
      sample_strptime s = Some d \<longrightarrow> date_min \<le> d + 1 \<and> d + 1 \<le> date_max"
    by blast
  have "(739047::int) < date_max" by (simp add: date_max_def)
  then have h6: "\<forall>c\<in>set sample_coins. \<forall>s. sample_last_dates (symbol c) = Some s \<longrightarrow>
      sample_strptime s = None \<longrightarrow> (739047::int) < date_max"
    by blast
  from build_update_plan_entries [where today = 739047 and depth = 10
      and coins = sample_coins and last_dates = sample_last_dates
      and strptime = sample_strptime, OF h1 h2 h3 h4 h5 h6]
  obtain plan where
    P: "build_update_plan sample_strptime sample_last_dates 739047 10 sample_coins = Inr plan"
    and A: "\<forall>c\<in>set sample_coins. sample_last_dates (symbol c) = None \<longrightarrow>
        (if (739047::int) - 10 > 739047 then symbol c \<notin> p_symbol ` set plan
         else \<lparr>p_symbol = symbol c, start_date = 739047 - 10, end_date = 739047\<rparr> \<in> set plan
            \<and> (\<forall>e\<in>set plan. p_symbol e = symbol c \<longrightarrow> start_date e = 739047 - 10))"
    and C: "\<forall>c\<in>set sample_coins. \<forall>s D. sample_last_dates (symbol c) = Some s \<longrightarrow>
        sample_strptime s = Some D \<longrightarrow>
        (if D + 1 > 739047 then symbol c \<notin> p_symbol ` set plan
         else \<lparr>p_symbol = symbol c, start_date = D + 1, end_date = 739047\<rparr> \<in> set plan
            \<and> (\<forall>e\<in>set plan. p_symbol e = symbol c \<longrightarrow> start_date e = D + 1))"
    by blast
  have "?btc \<in> set sample_coins" by (simp add: sample_coins_def)
  from bspec [OF A this]
  have btc: "\<lparr>p_symbol = ''BTC'', start_date = 739037, end_date = 739047\<rparr> \<in> set plan"
    by (simp add: sample_last_dates_def)
  have "?eth \<in> set sample_coins" by (simp add: sample_coins_def)
  from bspec [OF C this, THEN spec, THEN spec, of "''2024-06-05''" 739042]
  have eth: "\<lparr>p_symbol = ''ETH'', start_date = 739043, end_date = 739047\<rparr> \<in> set plan"
    by (simp add: sample_last_dates_def sample_strptime_def)
  have "?xrp \<in> set sample_coins" by (simp add: sample_coins_def)
  from bspec [OF C this, THEN spec, THEN spec, of "''2024-06-10''" 739047]
  have xrp: "''XRP'' \<notin> p_symbol ` set plan"
    by (simp add: sample_last_dates_def sample_strptime_def)
  from P btc eth xrp show ?thesis by blast
qed

text \<open>
  C1, counterexample to the claim as stated (for every today and history depth): with
  today = 2024-06-10 and a depth of 800000 days, today - depth is no date of the
  calendar; computing the default start raises OverflowError and no entry is emitted,
  although BTC is absent from the coverage map and today - depth does not exceed today.
\<close>

theorem build_update_plan_overflow:
  "sample_last_dates ''BTC'' = None \<and> (739047::int) - 800000 \<le> 739047 \<and>
   build_update_plan sample_strptime sample_last_dates 739047 800000 sample_coins =
     Inl OverflowError"
  by (simp add: build_update_plan_def default_start_date_def date_add_def date_min_def
      date_max_def timedelta_max_days_def sample_last_dates_def)

text \<open>
  C9. If the coverage-map value of a symbol is present but strptime rejects it, the
  planner takes today as the last date: the start computed for the symbol is
  today + 1 day (when that is a date of the calendar), which exceeds today, and no
  plan returned by build_update_plan has an entry for the symbol.
\<close>

theorem unparseable_coverage_skipped:
  assumes "last_dates smb = Some s" and "strptime s = None"
  shows "(date_min \<le> today + 1 \<and> today + 1 \<le> date_max \<longrightarrow>
            coin_start_date strptime last_dates today ds smb = Inr (today + 1)
            \<and> today + 1 > today)
         \<and> (\<forall>plan. build_update_plan strptime last_dates today depth coins = Inr plan
               \<longrightarrow> smb \<notin> p_symbol ` set plan)"
proof -
  have st: "coin_start_date strptime last_dates today d smb = date_add today 1" for d
    using assms by (rule coin_start_unparseable)
  have a: "date_min \<le> today + 1 \<and> today + 1 \<le> date_max \<longrightarrow>
            coin_start_date strptime last_dates today ds smb = Inr (today + 1)
            \<and> today + 1 > today"
    unfolding st by (simp add: date_add_one)
  have b: "smb \<notin> p_symbol ` set plan"
    if bp: "build_update_plan strptime last_dates today depth coins = Inr plan" for plan
  proof -
    from bp obtain d where
      loop: "plan_loop strptime last_dates today d [] coins = Inr plan"
      by (auto simp: build_update_plan_def split: sum.splits)
    show ?thesis
    proof (rule plan_loop_skipped [OF loop])
      fix start
      assume "coin_start_date strptime last_dates today d smb = Inr start"
      then have "date_add today 1 = Inr start" unfolding st .
      then have "start = today + 1" by (rule date_add_Inr)
      then show "start > today" by simp
    qed
  qed
  from a b show ?thesis by blast
qed

theorem unparseable_coverage_skipped_witness:
  "sample_last_dates ''ADA'' = Some ''garbage'' \<and> sample_strptime ''garbage'' = None
   \<and> coin_start_date sample_strptime sample_last_dates 739047 739037 ''ADA'' = Inr 739048
   \<and> ''ADA'' \<in> symbol ` set sample_coins
   \<and> (\<exists>plan. build_update_plan sample_strptime sample_last_dates 739047 10 sample_coins
               = Inr plan \<and> ''ADA'' \<notin> p_symbol ` set plan)"
proof -
  have h1: "sample_last_dates ''ADA'' = Some ''garbage''"
    by (simp add: sample_last_dates_def)
  have h2: "sample_strptime ''garbage'' = None"
    by (simp add: sample_strptime_def)
  have r: "date_min \<le> (739047::int) + 1 \<and> (739047::int) + 1 \<le> date_max"
    by (simp add: date_min_def date_max_def)
  note inst = unparseable_coverage_skipped [where last_dates = sample_last_dates
      and smb = "''ADA''" and s = "''garbage''" and strptime = sample_strptime
      and today = 739047 and ds = 739037 and depth = 10 and coins = sample_coins,
      OF h1 h2]
  from inst r have c: "coin_start_date sample_strptime sample_last_dates 739047 739037 ''ADA''
      = Inr 739048" by simp
  from inst sample_plan
  have "''ADA'' \<notin> p_symbol ` set
      [\<lparr>p_symbol = ''BTC'', start_date = 739037, end_date = 739047\<rparr>,
       \<lparr>p_symbol = ''ETH'', start_date = 739043, end_date = 739047\<rparr>]"
    by blast
  with sample_plan have d: "\<exists>plan. build_update_plan sample_strptime sample_last_dates
      739047 10 sample_coins = Inr plan \<and> ''ADA'' \<notin> p_symbol ` set plan" by blast
  have e: "''ADA'' \<in> symbol ` set sample_coins" by (simp add: sample_coins_def)
  from h1 h2 c d e show ?thesis by blast
qed

subsection \<open>The storage gateway\<close>

lemma filter_insert_or_replace_same:
  "key r' = key r \<Longrightarrow> filter (\<lambda>x. key x = key r') (insert_or_replace key tbl r) = [r]"
  by (simp add: insert_or_replace_def)

lemma filter_insert_or_replace_other:
  "k \<noteq> key r \<Longrightarrow>
   filter (\<lambda>x. key x = k) (insert_or_replace key tbl r) = filter (\<lambda>x. key x = k) tbl"
  by (auto simp: insert_or_replace_def intro: filter_cong)

lemma insert_or_replace_twice:
  "key r1 = key r2 \<Longrightarrow>
   insert_or_replace key (insert_or_replace key tbl r1) r2 = insert_or_replace key tbl r2"
  by (simp add: insert_or_replace_def)

lemma set_insert_or_replace:
  "set (insert_or_replace key tbl r) = {x \<in> set tbl. key x \<noteq> key r} \<union> {r}"
  by (auto simp: insert_or_replace_def)

lemma distinct_insert_or_replace:
  "distinct (map key tbl) \<Longrightarrow> distinct (map key (insert_or_replace key tbl r))"
  by (auto simp: insert_or_replace_def distinct_map_filter)

lemma executemany_snoc:
  "executemany key tbl (rows @ [r]) = insert_or_replace key (executemany key tbl rows) r"
  by (simp add: executemany_def)

lemma set_executemany_subset:
  "set (executemany key tbl rows) \<subseteq> set tbl \<union> set rows"
  by (induction rows rule: rev_induct)
     (auto simp: executemany_snoc set_insert_or_replace, simp add: executemany_def)

lemma keys_executemany:
  "key ` set (executemany key tbl rows) = key ` set tbl \<union> key ` set rows"
proof (induction rows rule: rev_induct)
  case Nil
  show ?case by (simp add: executemany_def)
next
  case (snoc r rows)
  have "key ` ({x \<in> A. key x \<noteq> key r} \<union> {r}) = key ` A \<union> {key r}" for A
    by auto
  with snoc show ?case
    by (simp add: executemany_snoc set_insert_or_replace Un_assoc)
qed

lemma distinct_executemany:
  "distinct (map key tbl) \<Longrightarrow> distinct (map key (executemany key tbl rows))"
  by (induction rows rule: rev_induct)
     (simp_all add: executemany_snoc distinct_insert_or_replace, simp add: executemany_def)

lemma executemany_distinct_fresh:
  "distinct (map key rows) \<Longrightarrow> executemany key [] rows = rows"
proof (induction rows rule: rev_induct)
  case Nil
  show ?case by (simp add: executemany_def)
next
  case (snoc r rows)
  then have ih: "executemany key [] rows = rows" and fresh: "key r \<notin> key ` set rows"
    by auto
  from fresh have "\<forall>x\<in>set rows. key x \<noteq> key r" by (metis imageI)
  then have "filter (\<lambda>x. key x \<noteq> key r) rows = rows" by (rule filter_True)
  with ih show ?case
    by (simp add: executemany_snoc insert_or_replace_def)
qed

text \<open>
  C2. For two bar rows with the same (symbol, date) key, persisting both with
  insert_daily_history, in one call or in two successive calls, leaves exactly one
  stored row with that key, and it is the row persisted last; both ways give the same
  store, the rows of other keys are untouched, and persisting the same row a second
  time changes nothing.
\<close>

theorem upsert_last_write_wins:
  assumes "bar_key r1 = bar_key r2"
  shows "filter (\<lambda>x. bar_key x = bar_key r2)
           (daily_history (insert_daily_history conn [r1, r2])) = [r2]
       \<and> filter (\<lambda>x. bar_key x = bar_key r2)
           (daily_history (insert_daily_history (insert_daily_history conn [r1]) [r2])) = [r2]
       \<and> insert_daily_history (insert_daily_history conn [r1]) [r2]
           = insert_daily_history conn [r1, r2]
       \<and> insert_daily_history (insert_daily_history conn [r2]) [r2]
           = insert_daily_history conn [r2]
       \<and> filter (\<lambda>x. bar_key x \<noteq> bar_key r2)
           (daily_history (insert_daily_history conn [r1, r2]))
           = filter (\<lambda>x. bar_key x \<noteq> bar_key r2) (daily_history conn)"
proof -
  have one: "daily_history (insert_daily_history conn [r1, r2])
      = insert_or_replace bar_key (daily_history conn) r2"
    using assms by (simp add: insert_daily_history_def with_conn_def executemany_def insert_or_replace_twice)
  have two: "insert_daily_history (insert_daily_history conn [r1]) [r2]
      = insert_daily_history conn [r1, r2]"
    by (simp add: insert_daily_history_def with_conn_def executemany_def)
  have idem: "insert_daily_history (insert_daily_history conn [r2]) [r2]
      = insert_daily_history conn [r2]"
    by (simp add: insert_daily_history_def with_conn_def executemany_def insert_or_replace_twice)
  have same: "filter (\<lambda>x. bar_key x = bar_key r2)
      (insert_or_replace bar_key (daily_history conn) r2) = [r2]"
    by (rule filter_insert_or_replace_same) simp
  have other: "filter (\<lambda>x. bar_key x \<noteq> bar_key r2)
      (insert_or_replace bar_key (daily_history conn) r2)
      = filter (\<lambda>x. bar_key x \<noteq> bar_key r2) (daily_history conn)"
    by (simp add: insert_or_replace_def)
  show ?thesis unfolding two one idem using same other by simp
qed

theorem upsert_last_write_wins_witness:
  "bar_key bar1 = bar_key bar2 \<and> bar1 \<noteq> bar2
   \<and> daily_history (insert_daily_history db1 [bar1, bar2]) = [bar3, bar2]
   \<and> filter (\<lambda>x. bar_key x = bar_key bar2)
        (daily_history (insert_daily_history db1 [bar1, bar2])) = [bar2]"
proof -
  have k: "bar_key bar1 = bar_key bar2" by (simp add: bar_key_def bar1_def bar2_def)
  have n: "bar1 \<noteq> bar2" by (simp add: bar1_def bar2_def)
  have e: "daily_history (insert_daily_history db1 [bar1, bar2]) = [bar3, bar2]"
    by (simp add: insert_daily_history_def with_conn_def executemany_def insert_or_replace_def db1_def
        bar_key_def bar1_def bar2_def bar3_def)
  from upsert_last_write_wins [OF k, of db1] k n e show ?thesis by blast
qed

lemma coin_to_row_symbol:
  "coin_to_row to_text source now c = Inr r \<Longrightarrow> c_symbol r = symbol c"
  by (auto simp: coin_to_row_def Let_def split: sum.splits if_splits)

lemma bind_all_Inr:
  "bind_all f xs = Inr rs \<Longrightarrow> list_all2 (\<lambda>x r. f x = Inr r) xs rs"
proof (induction xs arbitrary: rs)
  case Nil
  then show ?case by simp
next
  case (Cons x xs)
  from Cons.prems obtain r rs' where
    "f x = Inr r" "bind_all f xs = Inr rs'" "rs = r # rs'"
    by (auto split: sum.splits)
  with Cons.IH [of rs'] show ?case by simp
qed

lemma bind_all_symbols:
  assumes "bind_all (coin_to_row to_text source now) coins = Inr rows"
  shows "map c_symbol rows = map symbol coins"
proof -
  from bind_all_Inr [OF assms]
  have l: "list_all2 (\<lambda>c r. coin_to_row to_text source now c = Inr r) coins rows" .
  then have len: "length coins = length rows" by (rule list_all2_lengthD)
  show ?thesis
  proof (rule nth_equalityI)
    show "length (map c_symbol rows) = length (map symbol coins)" using len by simp
  next
    fix i
    assume "i < length (map c_symbol rows)"
    then have i: "i < length rows" by simp
    with len have "coin_to_row to_text source now (coins ! i) = Inr (rows ! i)"
      using list_all2_nthD2 [OF l, of i] by simp
    then have "c_symbol (rows ! i) = symbol (coins ! i)" by (rule coin_to_row_symbol)
    with i len show "map c_symbol rows ! i = map symbol coins ! i" by simp
  qed
qed

lemma insert_top_coins_bound:
  assumes "coins \<noteq> []"
    and "bind_all (coin_to_row to_text source now) coins = Inr rows"
  shows "insert_top_coins to_text conn coins source now =
           (conn\<lparr>coins_tbl := executemany c_symbol [] rows\<rparr>, None)"
  using assms by (simp add: insert_top_coins_def with_conn_def Let_def)

lemma insert_top_coins_unbound:
  assumes "coins \<noteq> []"
    and "bind_all (coin_to_row to_text source now) coins = Inl e"
  shows "insert_top_coins to_text conn coins source now = (conn, Some e)"
  using assms by (simp add: insert_top_coins_def with_conn_def Let_def)

text \<open>
  C7 (as amended). For every non-empty list of symbol records insert_top_coins runs the
  delete and the re-insert in one transaction. When every record can be bound, the
  call replaces the snapshot: afterwards every row of the coins table is the row of a
  given record, there is exactly one row per given symbol, and when the given symbols
  are pairwise distinct the table is exactly the list of the given records' rows, so
  none of the previously stored rows is left; the history table is untouched. When a
  record cannot be bound, the call raises and the store is left as it was.
\<close>

theorem insert_top_coins_replaces:
  assumes "coins \<noteq> []"
  shows "(\<forall>rows. bind_all (coin_to_row to_text source now) coins = Inr rows \<longrightarrow>
           (\<exists>conn'. insert_top_coins to_text conn coins source now = (conn', None)
              \<and> list_all2 (\<lambda>c r. coin_to_row to_text source now c = Inr r) coins rows
              \<and> set (coins_tbl conn') \<subseteq> set rows
              \<and> c_symbol ` set (coins_tbl conn') = symbol ` set coins
              \<and> distinct (map c_symbol (coins_tbl conn'))
              \<and> (distinct (map symbol coins) \<longrightarrow> coins_tbl conn' = rows)
              \<and> daily_history conn' = daily_history conn))
       \<and> (\<forall>e. bind_all (coin_to_row to_text source now) coins = Inl e \<longrightarrow>
             insert_top_coins to_text conn coins source now = (conn, Some e))"
proof (intro conjI allI impI)
  fix rows
  assume b: "bind_all (coin_to_row to_text source now) coins = Inr rows"
  let ?tbl = "executemany c_symbol [] rows"
  let ?conn' = "conn\<lparr>coins_tbl := ?tbl\<rparr>"
  have sym: "map c_symbol rows = map symbol coins" using b by (rule bind_all_symbols)
  have r: "insert_top_coins to_text conn coins source now = (?conn', None)"
    using assms b by (rule insert_top_coins_bound)
  have l: "list_all2 (\<lambda>c r. coin_to_row to_text source now c = Inr r) coins rows"
    using b by (rule bind_all_Inr)
  have a: "set ?tbl \<subseteq> set rows"
    using set_executemany_subset [of c_symbol "[]" rows] by simp
  have "c_symbol ` set ?tbl = c_symbol ` set rows"
    using keys_executemany [of c_symbol "[]" rows] by simp
  also have "\<dots> = set (map c_symbol rows)" by (simp only: set_map)
  also have "\<dots> = symbol ` set coins" unfolding sym by simp
  finally have k: "c_symbol ` set ?tbl = symbol ` set coins" .
  have c: "distinct (map c_symbol ?tbl)"
    by (rule distinct_executemany) simp
  have d: "distinct (map symbol coins) \<longrightarrow> ?tbl = rows"
  proof
    assume "distinct (map symbol coins)"
    then have "distinct (map c_symbol rows)" unfolding sym .
    then show "?tbl = rows" by (rule executemany_distinct_fresh)
  qed
  show "\<exists>conn'. insert_top_coins to_text conn coins source now = (conn', None)
              \<and> list_all2 (\<lambda>c r. coin_to_row to_text source now c = Inr r) coins rows
              \<and> set (coins_tbl conn') \<subseteq> set rows
              \<and> c_symbol ` set (coins_tbl conn') = symbol ` set coins
              \<and> distinct (map c_symbol (coins_tbl conn'))
              \<and> (distinct (map symbol coins) \<longrightarrow> coins_tbl conn' = rows)
              \<and> daily_history conn' = daily_history conn"
  proof (rule exI [of _ ?conn'], intro conjI)
    show "insert_top_coins to_text conn coins source now = (?conn', None)" by (rule r)
    show "list_all2 (\<lambda>c r. coin_to_row to_text source now c = Inr r) coins rows" by (rule l)
    show "set (coins_tbl ?conn') \<subseteq> set rows" using a by simp
    show "c_symbol ` set (coins_tbl ?conn') = symbol ` set coins" using k by simp
    show "distinct (map c_symbol (coins_tbl ?conn'))" using c by simp
    show "distinct (map symbol coins) \<longrightarrow> coins_tbl ?conn' = rows" using d by simp
    show "daily_history ?conn' = daily_history conn" by simp
  qed
next
  fix e
  assume "bind_all (coin_to_row to_text source now) coins = Inl e"
  with assms show "insert_top_coins to_text conn coins source now = (conn, Some e)"
    by (rule insert_top_coins_unbound)
qed

lemma sample_rows:
  "bind_all (coin_to_row no_text ''yahoo_screener_api'' ''2024-06-10 00:00:00'') sample_coins =
     Inr [\<lparr>c_symbol = ''BTC'', c_name = Some ''Bitcoin'', c_market_cap = Some (Fin 100), c_rank = 1,
            c_source = ''yahoo_screener_api'', c_last_updated = ''2024-06-10 00:00:00''\<rparr>,
          \<lparr>c_symbol = ''ETH'', c_name = Some ''Ethereum'', c_market_cap = Some (Fin 50), c_rank = 2,
            c_source = ''yahoo_screener_api'', c_last_updated = ''2024-06-10 00:00:00''\<rparr>,
          \<lparr>c_symbol = ''XRP'', c_name = Some ''XRP'', c_market_cap = Some (Fin 20), c_rank = 3,
            c_source = ''yahoo_screener_api'', c_last_updated = ''2024-06-10 00:00:00''\<rparr>,
          \<lparr>c_symbol = ''ADA'', c_name = Some ''Cardano'', c_market_cap = Some (Fin 10), c_rank = 4,
            c_source = ''yahoo_screener_api'', c_last_updated = ''2024-06-10 00:00:00''\<rparr>]"
  by (simp add: sample_coins_def coin_to_row_def bind_float_def Let_def)

lemma odd_rows:
  "bind_all (coin_to_row no_text ''yahoo_screener_api'' ''2024-06-10 00:00:00'') [odd_coin] =
     Inl DatabaseError"
  by (simp add: odd_coin_def coin_to_row_def)

theorem insert_top_coins_replaces_witness:
  "sample_coins \<noteq> [] \<and> distinct (map symbol sample_coins)
   \<and> coins_tbl db2 = [old_row]
   \<and> (\<exists>conn'. insert_top_coins no_text db2 sample_coins ''yahoo_screener_api''
                 ''2024-06-10 00:00:00'' = (conn', None)
        \<and> map c_symbol (coins_tbl conn') = [''BTC'', ''ETH'', ''XRP'', ''ADA'']
        \<and> map c_name (coins_tbl conn')
            = [Some ''Bitcoin'', Some ''Ethereum'', Some ''XRP'', Some ''Cardano'']
        \<and> old_row \<notin> set (coins_tbl conn'))
   \<and> insert_top_coins no_text db2 [odd_coin] ''yahoo_screener_api'' ''2024-06-10 00:00:00''
       = (db2, Some DatabaseError)"
proof -
  have h1: "sample_coins \<noteq> []" by (simp add: sample_coins_def)
  have h3: "distinct (map symbol sample_coins)" by (simp add: sample_coins_def)
  have h4: "coins_tbl db2 = [old_row]" by (simp add: db2_def)
  note inst = insert_top_coins_replaces [OF h1, where to_text = no_text and conn = db2
      and source = "''yahoo_screener_api''" and now = "''2024-06-10 00:00:00''"]
  let ?src = "''yahoo_screener_api''" and ?now = "''2024-06-10 00:00:00''"
  let ?rows = "[\<lparr>c_symbol = ''BTC'', c_name = Some ''Bitcoin'', c_market_cap = Some (Fin 100), c_rank = 1,
          c_source = ?src, c_last_updated = ?now\<rparr>,
        \<lparr>c_symbol = ''ETH'', c_name = Some ''Ethereum'', c_market_cap = Some (Fin 50), c_rank = 2,
          c_source = ?src, c_last_updated = ?now\<rparr>,
        \<lparr>c_symbol = ''XRP'', c_name = Some ''XRP'', c_market_cap = Some (Fin 20), c_rank = 3,
          c_source = ?src, c_last_updated = ?now\<rparr>,
        \<lparr>c_symbol = ''ADA'', c_name = Some ''Cardano'', c_market_cap = Some (Fin 10), c_rank = 4,
          c_source = ?src, c_last_updated = ?now\<rparr>]"
  from inst [THEN conjunct1, rule_format, OF sample_rows] obtain conn' where
    full: "insert_top_coins no_text db2 sample_coins ?src ?now = (conn', None)
       \<and> list_all2 (\<lambda>c r. coin_to_row no_text ?src ?now c = Inr r) sample_coins ?rows
       \<and> set (coins_tbl conn') \<subseteq> set ?rows
       \<and> c_symbol ` set (coins_tbl conn') = symbol ` set sample_coins
       \<and> distinct (map c_symbol (coins_tbl conn'))
       \<and> (distinct (map symbol sample_coins) \<longrightarrow> coins_tbl conn' = ?rows)
       \<and> daily_history conn' = daily_history db2" ..
  note c1 = full [THEN conjunct1]
  note cd = full [THEN conjunct2, THEN conjunct2, THEN conjunct2, THEN conjunct2,
      THEN conjunct2, THEN conjunct1]
  note c2 = cd [rule_format, OF h3]
  have c3: "map c_symbol (coins_tbl conn') = [''BTC'', ''ETH'', ''XRP'', ''ADA'']"
    unfolding c2 by simp
  have c4: "map c_name (coins_tbl conn')
            = [Some ''Bitcoin'', Some ''Ethereum'', Some ''XRP'', Some ''Cardano'']"
    unfolding c2 by simp
  have c5: "old_row \<notin> set (coins_tbl conn')"
    unfolding c2 by (simp add: old_row_def)
  have ne: "[odd_coin] \<noteq> []" by simp
  note inst2 = insert_top_coins_replaces [OF ne, where to_text = no_text and conn = db2
      and source = "''yahoo_screener_api''" and now = "''2024-06-10 00:00:00''"]
  have c6: "insert_top_coins no_text db2 [odd_coin] ''yahoo_screener_api''
      ''2024-06-10 00:00:00'' = (db2, Some DatabaseError)"
    by (rule inst2 [THEN conjunct2, rule_format, OF odd_rows])
  show ?thesis by (intro conjI exI [of _ conn'] h1 h3 h4 c1 c3 c4 c5 c6)
qed

text \<open>
  C7, counterexample to the claim as stated (for every input list): for the empty list
  insert_top_coins returns at once, before the DELETE; the previously stored row is
  still in the coins table, which therefore does not contain exactly the given (no)
  records.
\<close>

theorem insert_top_coins_empty_keeps_snapshot:
  "insert_top_coins no_text db2 [] ''yahoo_screener_api'' ''2024-06-10 00:00:00'' = (db2, None)
   \<and> coins_tbl db2 = [old_row] \<and> set (coins_tbl db2) \<noteq> set []"
  by (simp add: insert_top_coins_def db2_def)

subsection \<open>Bulk mode: batching\<close>

lemma concat_slices_take:
  "concat (map (\<lambda>k. slice xs (k * b) b) [0..<m]) = take (m * b) xs"
proof (induction m)
  case 0
  show ?case by simp
next
  case (Suc m)
  have "take (m * b + b) xs = take (m * b) xs @ take b (drop (m * b) xs)"
    by (rule take_add)
  with Suc show ?case by (simp add: slice_def add.commute)
qed

lemma chunks_cover:
  assumes "0 < (b::nat)"
  shows "n \<le> ((n + b - 1) div b) * b"
proof -
  have "n + b - 1 < ((n + b - 1) div b) * b + b"
    using assms by (metis dividend_less_div_times mult.commute add.commute)
  with assms show ?thesis by linarith
qed

lemma chunk_start_less:
  assumes "0 < (b::nat)" and "k < (n + b - 1) div b"
  shows "k * b < n"
proof -
  from assms(2) have "Suc k \<le> (n + b - 1) div b" by simp
  with assms(1) have "Suc k * b \<le> n + b - 1"
    by (simp add: less_eq_div_iff_mult_less_eq)
  with assms(1) show ?thesis by simp
qed

lemma make_batches_pos:
  assumes "0 < B"
  shows "make_batches symbols B =
     Inr (map (\<lambda>k. slice symbols (k * nat B) (nat B))
            [0..<(length symbols + nat B - 1) div nat B])"
  using assms by (simp add: make_batches_def batch_starts_def comp_def)

lemma concat_make_batches:
  assumes "0 < B" and "make_batches symbols B = Inr batches"
  shows "concat batches = symbols"
proof -
  let ?b = "nat B"
  let ?m = "(length symbols + ?b - 1) div ?b"
  from assms have b: "0 < ?b"
    and eq: "batches = map (\<lambda>k. slice symbols (k * ?b) ?b) [0..<?m]"
    by (simp_all add: make_batches_pos)
  have "length symbols \<le> ?m * ?b" using b by (rule chunks_cover)
  then show ?thesis unfolding eq concat_slices_take by simp
qed

lemma length_make_batches:
  assumes "0 < B" and "make_batches symbols B = Inr batches" and "b \<in> set batches"
  shows "1 \<le> length b \<and> int (length b) \<le> B"
proof -
  let ?b = "nat B"
  let ?m = "(length symbols + ?b - 1) div ?b"
  from assms(1,2) have pos: "0 < ?b"
    and eq: "batches = map (\<lambda>k. slice symbols (k * ?b) ?b) [0..<?m]"
    by (simp_all add: make_batches_pos)
  from assms(3) obtain k where k: "k < ?m" and bk: "b = slice symbols (k * ?b) ?b"
    unfolding eq by auto
  from chunk_start_less [OF pos k] have "k * ?b < length symbols" .
  then have "1 \<le> length b" using pos unfolding bk slice_def by (simp add: Suc_le_eq)
  moreover have "int (length b) \<le> B" using assms(1) unfolding bk slice_def by simp
  ultimately show ?thesis ..
qed

lemma distinct_concat_unique_index:
  assumes "distinct (concat xss)" and "i < length xss" and "j < length xss"
    and "x \<in> set (xss ! i)" and "x \<in> set (xss ! j)"
  shows "i = j"
  using assms
proof (induction xss arbitrary: i j)
  case Nil
  then show ?case by simp
next
  case (Cons xs xss)
  from Cons.prems(1) have d: "distinct (concat xss)"
    and disj: "set xs \<inter> set (concat xss) = {}" by simp_all
  have in_tl: "x \<in> set (concat xss)" if "k < length xss" "x \<in> set (xss ! k)" for k
    using that by (auto intro: nth_mem)
  show ?case
  proof (cases i)
    case 0
    show ?thesis
    proof (cases j)
      case 0
      with \<open>i = 0\<close> show ?thesis by simp
    next
      case (Suc j')
      with Cons.prems 0 have "x \<in> set xs" "x \<in> set (concat xss)"
        using in_tl [of j'] by simp_all
      with disj show ?thesis by blast
    qed
  next
    case (Suc i')
    show ?thesis
    proof (cases j)
      case 0
      with Cons.prems Suc have "x \<in> set xs" "x \<in> set (concat xss)"
        using in_tl [of i'] by simp_all
      with disj show ?thesis by blast
    next
      case (Suc j')
      with Cons.prems \<open>i = Suc i'\<close> Cons.IH [OF d, of i' j'] show ?thesis by simp
    qed
  qed
qed

lemma in_concat_index:
  "x \<in> set (concat xss) \<Longrightarrow> \<exists>i<length xss. x \<in> set (xss ! i)"
  by (auto simp: in_set_conv_nth) blast

lemma make_batches_position:
  assumes "0 < B" and "make_batches symbols B = Inr batches" and "i < length symbols"
  shows "i div nat B < length batches
       \<and> i mod nat B < length (batches ! (i div nat B))
       \<and> batches ! (i div nat B) ! (i mod nat B) = symbols ! i"
proof -
  let ?b = "nat B"
  let ?m = "(length symbols + ?b - 1) div ?b"
  let ?q = "i div ?b"
  from assms(1,2) have pos: "0 < ?b"
    and eq: "batches = map (\<lambda>k. slice symbols (k * ?b) ?b) [0..<?m]"
    by (simp_all add: make_batches_pos)
  have "length symbols \<le> ?m * ?b" using pos by (rule chunks_cover)
  with assms(3) have "i < ?m * ?b" by simp
  with pos have q: "?q < ?m" by (simp add: div_less_iff_less_mult)
  have split: "?q * ?b + i mod ?b = i" by simp
  have r: "i mod ?b < ?b" using pos by simp
  have bq: "batches ! ?q = take ?b (drop (?q * ?b) symbols)"
    unfolding eq using q by (simp add: slice_def)
  have "i mod ?b < length symbols - ?q * ?b" using split assms(3) by linarith
  with r have len: "i mod ?b < length (batches ! ?q)" unfolding bq by simp
  have "batches ! ?q ! (i mod ?b) = drop (?q * ?b) symbols ! (i mod ?b)"
    unfolding bq using r by simp
  also have "\<dots> = symbols ! (?q * ?b + i mod ?b)"
    using split assms(3) by (intro nth_drop) linarith
  also have "\<dots> = symbols ! i" unfolding split ..
  finally have nth: "batches ! ?q ! (i mod ?b) = symbols ! i" .
  from q len nth show ?thesis unfolding eq by simp
qed

lemma bulk_jobs_ok:
  assumes "date_add (end_date p) 1 = Inr epo"
    and "make_batches (map p_symbol (p # ps)) B = Inr batches"
  shows "bulk_jobs (p # ps) B =
     Inr (map (\<lambda>b. \<lparr>tickers = b, j_start = start_date p, j_end = epo\<rparr>) batches)"
  using assms by (simp add: bulk_jobs_def)

lemma bulk_jobs_Inr:
  assumes "bulk_jobs (p # ps) B = Inr jobs"
    and "make_batches (map p_symbol (p # ps)) B = Inr batches"
  shows "jobs = map (\<lambda>b. \<lparr>tickers = b, j_start = start_date p, j_end = end_date p + 1\<rparr>)
                  batches"
proof (cases "date_add (end_date p) 1")
  case (Inl e)
  with assms(1) show ?thesis by (simp add: bulk_jobs_def)
next
  case (Inr epo)
  then have "epo = end_date p + 1" by (rule date_add_Inr)
  with bulk_jobs_ok [OF Inr assms(2)] assms(1) show ?thesis by simp
qed

text \<open>
  C10 (as amended). In bulk mode, for a batch size of at least 1, the batching of a
  non-empty plan is a partition of its symbol list: the batches concatenated in order
  are the symbol list, each batch has between 1 and BULK_BATCH_SIZE symbols, the
  symbol at position i of the plan is the one at index i mod BULK_BATCH_SIZE of batch
  i div BULK_BATCH_SIZE, a symbol of a plan with pairwise distinct symbols lies in
  exactly one batch, and the jobs submitted are these batches, each fetched from the
  start date of the plan's first entry up to, as the source's exclusive end, the day
  after the first entry's end date; the jobs exist whenever that day is a date of
  the calendar.
\<close>

theorem bulk_jobs_partition:
  assumes "plan \<noteq> []" and "0 < B"
  shows "(\<exists>batches. make_batches (map p_symbol plan) B = Inr batches
            \<and> concat batches = map p_symbol plan
            \<and> (\<forall>b\<in>set batches. 1 \<le> length b \<and> int (length b) \<le> B)
            \<and> (\<forall>i<length plan.
                  i div nat B < length batches
                  \<and> i mod nat B < length (batches ! (i div nat B))
                  \<and> batches ! (i div nat B) ! (i mod nat B) = p_symbol (plan ! i))
            \<and> (distinct (map p_symbol plan) \<longrightarrow>
                 (\<forall>s\<in>set (map p_symbol plan).
                    \<exists>!i. i < length batches \<and> s \<in> set (batches ! i)))
            \<and> (\<forall>jobs. bulk_jobs plan B = Inr jobs \<longrightarrow>
                 map tickers jobs = batches
                 \<and> (\<forall>j\<in>set jobs. j_start j = start_date (hd plan)
                                   \<and> j_end j = end_date (hd plan) + 1)))
       \<and> (date_min \<le> end_date (hd plan) + 1 \<and> end_date (hd plan) + 1 \<le> date_max
            \<longrightarrow> (\<exists>jobs. bulk_jobs plan B = Inr jobs))"
proof -
  let ?symbols = "map p_symbol plan"
  from assms(2) obtain batches where mb: "make_batches ?symbols B = Inr batches"
    by (simp add: make_batches_pos)
  have cc: "concat batches = ?symbols" using assms(2) mb by (rule concat_make_batches)
  have len: "\<forall>b\<in>set batches. 1 \<le> length b \<and> int (length b) \<le> B"
    using length_make_batches [OF assms(2) mb] by blast
  have uniq: "\<exists>!i. i < length batches \<and> s \<in> set (batches ! i)"
    if d: "distinct ?symbols" and s: "s \<in> set ?symbols" for s
  proof -
    from d have dc: "distinct (concat batches)" unfolding cc .
    from s have "s \<in> set (concat batches)" unfolding cc .
    then have "\<exists>i<length batches. s \<in> set (batches ! i)" by (rule in_concat_index)
    then obtain i where i: "i < length batches" "s \<in> set (batches ! i)"
      by (elim exE conjE)
    show ?thesis
    proof (rule ex1I [of _ i])
      show "i < length batches \<and> s \<in> set (batches ! i)" using i by simp
    next
      fix j
      assume "j < length batches \<and> s \<in> set (batches ! j)"
      then show "j = i"
        using distinct_concat_unique_index [OF dc _ i(1) _ i(2), of j] by simp
    qed
  qed
  from assms(1) obtain p ps where plan: "plan = p # ps" by (cases plan) auto
  have mb': "make_batches (map p_symbol (p # ps)) B = Inr batches"
    using mb unfolding plan .
  have jobs: "map tickers jobs = batches
      \<and> (\<forall>j\<in>set jobs. j_start j = start_date (hd plan) \<and> j_end j = end_date (hd plan) + 1)"
    if bj: "bulk_jobs plan B = Inr jobs" for jobs
  proof -
    from bj have "bulk_jobs (p # ps) B = Inr jobs" unfolding plan .
    from bulk_jobs_Inr [OF this mb'] show ?thesis by (simp add: plan comp_def)
  qed
  have ex: "\<exists>jobs. bulk_jobs plan B = Inr jobs"
    if "date_min \<le> end_date (hd plan) + 1 \<and> end_date (hd plan) + 1 \<le> date_max"
  proof -
    from that have "date_add (end_date p) 1 = Inr (end_date p + 1)"
      by (intro date_add_one) (simp_all add: plan)
    from bulk_jobs_ok [OF this mb'] show ?thesis unfolding plan by blast
  qed
  have P: "\<forall>i<length plan.
      i div nat B < length batches
      \<and> i mod nat B < length (batches ! (i div nat B))
      \<and> batches ! (i div nat B) ! (i mod nat B) = p_symbol (plan ! i)"
  proof (intro allI impI)
    fix i
    assume i: "i < length plan"
    then have "i < length ?symbols" by simp
    from make_batches_position [OF assms(2) mb this] i
    show "i div nat B < length batches
      \<and> i mod nat B < length (batches ! (i div nat B))
      \<and> batches ! (i div nat B) ! (i mod nat B) = p_symbol (plan ! i)"
      by simp
  qed
  have U: "distinct ?symbols \<longrightarrow>
      (\<forall>s\<in>set ?symbols. \<exists>!i. i < length batches \<and> s \<in> set (batches ! i))"
    by (intro impI ballI) (rule uniq)
  have J: "\<forall>jobs. bulk_jobs plan B = Inr jobs \<longrightarrow>
      map tickers jobs = batches
      \<and> (\<forall>j\<in>set jobs. j_start j = start_date (hd plan)
                        \<and> j_end j = end_date (hd plan) + 1)"
    by (intro allI impI) (rule jobs)
  have first: "\<exists>batches. make_batches ?symbols B = Inr batches
            \<and> concat batches = ?symbols
            \<and> (\<forall>b\<in>set batches. 1 \<le> length b \<and> int (length b) \<le> B)
            \<and> (\<forall>i<length plan.
                  i div nat B < length batches
                  \<and> i mod nat B < length (batches ! (i div nat B))
                  \<and> batches ! (i div nat B) ! (i mod nat B) = p_symbol (plan ! i))
            \<and> (distinct ?symbols \<longrightarrow>
                 (\<forall>s\<in>set ?symbols. \<exists>!i. i < length batches \<and> s \<in> set (batches ! i)))
            \<and> (\<forall>jobs. bulk_jobs plan B = Inr jobs \<longrightarrow>
                 map tickers jobs = batches
                 \<and> (\<forall>j\<in>set jobs. j_start j = start_date (hd plan)
                                   \<and> j_end j = end_date (hd plan) + 1))"
    by (rule exI [of _ batches]) (intro conjI mb cc len P U J)
  have second: "date_min \<le> end_date (hd plan) + 1 \<and> end_date (hd plan) + 1 \<le> date_max
            \<longrightarrow> (\<exists>jobs. bulk_jobs plan B = Inr jobs)"
    by (intro impI) (rule ex)
  from first second show ?thesis by (rule conjI)
qed

lemma sample_batches:
  "make_batches (map p_symbol sample_plan5) 2 =
     Inr [[''BTC'', ''ETH''], [''XRP'', ''ADA''], [''SOL'']]"
  by (simp add: sample_plan5_def make_batches_def batch_starts_def slice_def
      upt_conv_Cons)

theorem bulk_jobs_partition_witness:
  "sample_plan5 \<noteq> [] \<and> (0::int) < 2
   \<and> (\<exists>batches. make_batches (map p_symbol sample_plan5) 2 = Inr batches
         \<and> batches = [[''BTC'', ''ETH''], [''XRP'', ''ADA''], [''SOL'']]
         \<and> concat batches = map p_symbol sample_plan5
         \<and> (\<forall>b\<in>set batches. 1 \<le> length b \<and> int (length b) \<le> 2))"
proof -
  have ne: "sample_plan5 \<noteq> []" by (simp add: sample_plan5_def)
  have pos: "(0::int) < 2" by simp
  from bulk_jobs_partition [OF ne pos]
  have "\<exists>batches. make_batches (map p_symbol sample_plan5) 2 = Inr batches
            \<and> concat batches = map p_symbol sample_plan5
            \<and> (\<forall>b\<in>set batches. 1 \<le> length b \<and> int (length b) \<le> 2)
            \<and> (\<forall>i<length sample_plan5.
                  i div nat 2 < length batches
                  \<and> i mod nat 2 < length (batches ! (i div nat 2))
                  \<and> batches ! (i div nat 2) ! (i mod nat 2) = p_symbol (sample_plan5 ! i))
            \<and> (distinct (map p_symbol sample_plan5) \<longrightarrow>
                 (\<forall>s\<in>set (map p_symbol sample_plan5).
                    \<exists>!i. i < length batches \<and> s \<in> set (batches ! i)))
            \<and> (\<forall>jobs. bulk_jobs sample_plan5 2 = Inr jobs \<longrightarrow>
                 map tickers jobs = batches
                 \<and> (\<forall>j\<in>set jobs. j_start j = start_date (hd sample_plan5)
                                   \<and> j_end j = end_date (hd sample_plan5) + 1))"
    by (rule conjunct1)
  then obtain batches where
    b1: "make_batches (map p_symbol sample_plan5) 2 = Inr batches" and
    b2: "concat batches = map p_symbol sample_plan5" and
    b3: "\<forall>b\<in>set batches. 1 \<le> length b \<and> int (length b) \<le> 2"
    by (elim exE conjE)
  from b1 have b4: "batches = [[''BTC'', ''ETH''], [''XRP'', ''ADA''], [''SOL'']]"
    unfolding sample_batches by simp
  from ne pos b1 b2 b3 b4 show ?thesis by (intro conjI exI [of _ batches])
qed

text \<open>
  C10, counterexample to the claim as stated (no condition on the batch size): with
  BULK_BATCH_SIZE = -1 the range of batch starts is empty, so a plan of five symbols
  gets no batch and no job at all, and its symbols are fetched by none; with
  BULK_BATCH_SIZE = 0 the range raises ValueError.
\<close>

theorem bulk_jobs_negative_batch_size:
  "sample_plan5 \<noteq> []
   \<and> make_batches (map p_symbol sample_plan5) (- 1) = Inr []
   \<and> bulk_jobs sample_plan5 (- 1) = Inr []
   \<and> concat ([] :: string list list) \<noteq> map p_symbol sample_plan5
   \<and> make_batches (map p_symbol sample_plan5) 0 = Inl ValueError"
  by (simp add: sample_plan5_def make_batches_def batch_starts_def bulk_jobs_def
      date_add_def date_min_def date_max_def timedelta_max_days_def)

subsection \<open>Bulk mode: retries\<close>

lemma fetch_batch_loop_raised:
  "int attempt < m \<Longrightarrow> download (attempt + 1) = Raised e \<Longrightarrow>
   fetch_batch_loop download is_empty parse m attempt slept =
   fetch_batch_loop download is_empty parse m (attempt + 1) (slept @ [backoff (attempt + 1)])"
  by (subst fetch_batch_loop.simps) simp

lemma fetch_batch_loop_returned:
  "int attempt < m \<Longrightarrow> download (attempt + 1) = Returned df \<Longrightarrow>
   fetch_batch_loop download is_empty parse m attempt slept =
   \<lparr>fetched_rows = (if is_empty df then Inr [] else parse df), waits = slept,
    attempts = attempt + 1\<rparr>"
  by (subst fetch_batch_loop.simps) simp

lemma fetch_batch_loop_exhausted:
  "\<not> int attempt < m \<Longrightarrow>
   fetch_batch_loop download is_empty parse m attempt slept =
   \<lparr>fetched_rows = Inr [], waits = slept, attempts = attempt\<rparr>"
  by (subst fetch_batch_loop.simps) simp

lemma fetch_batch_loop_first_return:
  assumes "attempt < k" and "int k \<le> m"
    and "\<And>n. attempt < n \<Longrightarrow> n < k \<Longrightarrow> \<exists>e. download n = Raised e"
    and "download k = Returned df"
  shows "fetch_batch_loop download is_empty parse m attempt slept =
     \<lparr>fetched_rows = (if is_empty df then Inr [] else parse df),
      waits = slept @ map backoff [Suc attempt..<k], attempts = k\<rparr>"
  using assms(1,3)
proof (induction "k - Suc attempt" arbitrary: attempt slept)
  case 0
  then have k: "k = attempt + 1" by simp
  have lt: "int attempt < m" using assms(2) k by simp
  from assms(4) k have "download (attempt + 1) = Returned df" by simp
  from fetch_batch_loop_returned [where download = download and attempt = attempt
      and m = m and df = df and is_empty = is_empty and parse = parse and slept = slept,
      OF lt this] k
  show ?case by simp
next
  case (Suc d)
  then have lt: "Suc attempt < k" by simp
  with assms(2) have ltm: "int attempt < m" by simp
  from Suc.prems(2) [of "Suc attempt"] lt obtain e where
    e: "download (attempt + 1) = Raised e" by auto
  have ih: "fetch_batch_loop download is_empty parse m (Suc attempt)
       (slept @ [backoff (attempt + 1)]) =
     \<lparr>fetched_rows = (if is_empty df then Inr [] else parse df),
      waits = (slept @ [backoff (attempt + 1)]) @ map backoff [Suc (Suc attempt)..<k],
      attempts = k\<rparr>"
  proof (rule Suc.hyps(1))
    show "d = k - Suc (Suc attempt)" using Suc.hyps(2) by simp
    show "Suc attempt < k" by (rule lt)
    show "\<exists>e. download n = Raised e" if "Suc attempt < n" "n < k" for n
      using Suc.prems(2) [of n] that by simp
  qed
  have "[Suc attempt..<k] = Suc attempt # [Suc (Suc attempt)..<k]"
    using lt by (simp add: upt_conv_Cons)
  with ih fetch_batch_loop_raised [where download = download and attempt = attempt
      and m = m and e = e and is_empty = is_empty and parse = parse and slept = slept,
      OF ltm e]
  show ?case by simp
qed

lemma fetch_batch_loop_all_raise:
  assumes "\<And>n. attempt < n \<Longrightarrow> int n \<le> m \<Longrightarrow> \<exists>e. download n = Raised e"
    and "int attempt \<le> m"
  shows "fetch_batch_loop download is_empty parse m attempt slept =
     \<lparr>fetched_rows = Inr [], waits = slept @ map backoff [Suc attempt..<Suc (nat m)],
      attempts = nat m\<rparr>"
  using assms
proof (induction "nat m - attempt" arbitrary: attempt slept)
  case 0
  then have "nat m = attempt" by simp
  then have "\<not> int attempt < m" by simp
  from fetch_batch_loop_exhausted [OF this] \<open>nat m = attempt\<close> show ?case by simp
next
  case (Suc d)
  then have ltm: "int attempt < m" by simp
  with Suc.prems(1) [of "Suc attempt"] obtain e where
    e: "download (attempt + 1) = Raised e" by auto
  have ih: "fetch_batch_loop download is_empty parse m (Suc attempt)
       (slept @ [backoff (attempt + 1)]) =
     \<lparr>fetched_rows = Inr [],
      waits = (slept @ [backoff (attempt + 1)]) @ map backoff [Suc (Suc attempt)..<Suc (nat m)],
      attempts = nat m\<rparr>"
  proof (rule Suc.hyps(1))
    show "d = nat m - Suc attempt" using Suc.hyps(2) by simp
    show "int (Suc attempt) \<le> m" using ltm by simp
    show "\<exists>e. download n = Raised e" if "Suc attempt < n" "int n \<le> m" for n
      using Suc.prems(1) [of n] that by simp
  qed
  from ltm have "attempt < nat m" by linarith
  then have "[Suc attempt..<Suc (nat m)] = Suc attempt # [Suc (Suc attempt)..<Suc (nat m)]"
    by (simp add: upt_conv_Cons)
  with ih fetch_batch_loop_raised [where download = download and attempt = attempt
      and m = m and e = e and is_empty = is_empty and parse = parse and slept = slept,
      OF ltm e]
  show ?case by simp
qed

lemma persist_results_append:
  "persist_results conn (xs @ ys) =
     (case persist_results conn xs of
        (conn', None) \<Rightarrow> persist_results conn' ys
      | (conn', Some e) \<Rightarrow> (conn', Some e))"
  by (induction conn xs rule: persist_results.induct) simp_all

lemma persist_results_skip_empty:
  "persist_results conn (before @ Inr [] # after) = persist_results conn (before @ after)"
  by (simp add: persist_results_append split: prod.splits option.splits)

lemma fetch_batch_rows_first_return:
  assumes "0 < k" and "int k \<le> m"
    and "\<forall>n. 0 < n \<and> n < k \<longrightarrow> (\<exists>e. download n = Raised e)"
    and "download k = Returned df"
  shows "fetch_batch_rows download is_empty parse m =
     \<lparr>fetched_rows = (if is_empty df then Inr [] else parse df),
      waits = map backoff [1..<k], attempts = k\<rparr>"
proof -
  have r: "\<exists>e. download n = Raised e" if "0 < n" "n < k" for n
    using assms(3) that by blast
  from fetch_batch_loop_first_return [where attempt = 0 and k = k and m = m
      and download = download and df = df and is_empty = is_empty and parse = parse
      and slept = "[]", OF assms(1,2) r assms(4)]
  show ?thesis by (simp add: fetch_batch_rows_def)
qed

lemma fetch_batch_rows_all_raise:
  assumes "\<forall>n. 0 < n \<and> int n \<le> m \<longrightarrow> (\<exists>e. download n = Raised e)"
  shows "fetch_batch_rows download is_empty parse m =
     \<lparr>fetched_rows = Inr [], waits = map backoff [1..<Suc (nat m)], attempts = nat m\<rparr>"
proof (cases "0 \<le> m")
  case True
  have r: "\<exists>e. download n = Raised e" if "0 < n" "int n \<le> m" for n
    using assms that by blast
  from True have "int 0 \<le> m" by simp
  from fetch_batch_loop_all_raise [where attempt = 0 and m = m
      and download = download and is_empty = is_empty and parse = parse
      and slept = "[]", OF r this]
  show ?thesis by (simp add: fetch_batch_rows_def)
next
  case False
  then have "\<not> int 0 < m" by simp
  from fetch_batch_loop_exhausted [OF this] False
  show ?thesis by (simp add: fetch_batch_rows_def)
qed

lemma set_executemany_distinct:
  "distinct (map key rows) \<Longrightarrow> set rows \<subseteq> set (executemany key tbl rows)"
proof (induction rows rule: rev_induct)
  case Nil
  show ?case by simp
next
  case (snoc x rows)
  then have ih: "set rows \<subseteq> set (executemany key tbl rows)"
    and fresh: "key x \<notin> key ` set rows" by auto
  have "r \<in> set (executemany key tbl (rows @ [x]))" if "r \<in> set (rows @ [x])" for r
  proof (cases "r = x")
    case True
    then show ?thesis by (simp add: executemany_snoc insert_or_replace_def)
  next
    case False
    with that have r: "r \<in> set rows" by simp
    with fresh have "key r \<noteq> key x" by (metis imageI)
    moreover from ih r have "r \<in> set (executemany key tbl rows)" by blast
    ultimately show ?thesis by (simp add: executemany_snoc insert_or_replace_def)
  qed
  then show ?case by blast
qed

lemma executemany_keeps_other_keys:
  "r \<in> set tbl \<Longrightarrow> key r \<notin> key ` set rows \<Longrightarrow> r \<in> set (executemany key tbl rows)"
proof (induction rows rule: rev_induct)
  case Nil
  then show ?case by (simp add: executemany_def)
next
  case (snoc x rows)
  then have "r \<in> set (executemany key tbl rows)" and "key r \<noteq> key x" by auto
  then show ?case by (simp add: executemany_snoc insert_or_replace_def)
qed

lemma insert_daily_history_rows:
  assumes "distinct (map bar_key rows)" and "r \<in> set rows"
  shows "r \<in> set (daily_history (insert_daily_history conn rows))"
proof -
  from assms(2) have ne: "rows \<noteq> []" by auto
  from set_executemany_distinct [OF assms(1), of "daily_history conn"] assms(2)
  have "r \<in> set (executemany bar_key (daily_history conn) rows)" by blast
  with ne show ?thesis by (simp add: insert_daily_history_def with_conn_def)
qed

lemma insert_daily_history_keeps:
  assumes "r \<in> set (daily_history conn)" and "bar_key r \<notin> bar_key ` set rows"
  shows "r \<in> set (daily_history (insert_daily_history conn rows))"
proof (cases "rows = []")
  case True
  with assms(1) show ?thesis by (simp add: insert_daily_history_def)
next
  case False
  from executemany_keeps_other_keys [OF assms]
  have "r \<in> set (executemany bar_key (daily_history conn) rows)" .
  with False show ?thesis by (simp add: insert_daily_history_def with_conn_def)
qed

lemma persist_results_keeps:
  assumes "persist_results conn rs = (conn', None)"
    and "r \<in> set (daily_history conn)"
    and "\<And>rows. Inr rows \<in> set rs \<Longrightarrow> bar_key r \<notin> bar_key ` set rows"
  shows "r \<in> set (daily_history conn')"
  using assms
proof (induction conn rs rule: persist_results.induct)
  case (1 conn)
  then show ?case by simp
next
  case (2 conn e rs)
  then show ?case by simp
next
  case (3 conn rows rs)
  let ?c = "if rows \<noteq> [] then insert_daily_history conn rows else conn"
  from "3.prems"(1) have p: "persist_results ?c rs = (conn', None)" by simp
  from "3.prems"(3) [of rows] have k: "bar_key r \<notin> bar_key ` set rows" by simp
  have "r \<in> set (daily_history ?c)"
    using insert_daily_history_keeps [OF "3.prems"(2) k] "3.prems"(2) by simp
  moreover have "bar_key r \<notin> bar_key ` set rows'" if "Inr rows' \<in> set rs" for rows'
    using "3.prems"(3) [of rows'] that by simp
  ultimately show ?case using "3.IH" [OF p] by blast
qed

lemma persist_results_prefix_ok:
  "persist_results conn (xs @ ys) = (conn', None) \<Longrightarrow>
   \<exists>c. persist_results conn xs = (c, None) \<and> persist_results c ys = (conn', None)"
  by (cases "persist_results conn xs")
     (auto simp: persist_results_append split: option.splits)

lemma persist_results_persists:
  assumes "persist_results conn (pre @ Inr rows # post) = (conn', None)"
    and "distinct (map bar_key rows)" and "r \<in> set rows"
    and "\<And>rows'. Inr rows' \<in> set post \<Longrightarrow> bar_key r \<notin> bar_key ` set rows'"
  shows "r \<in> set (daily_history conn')"
proof -
  from persist_results_prefix_ok [OF assms(1)] obtain c where
    c: "persist_results c (Inr rows # post) = (conn', None)" by blast
  from assms(3) have ne: "rows \<noteq> []" by auto
  with c have p: "persist_results (insert_daily_history c rows) post = (conn', None)"
    by simp
  have "r \<in> set (daily_history (insert_daily_history c rows))"
    using assms(2,3) by (rule insert_daily_history_rows)
  from persist_results_keeps [OF p this assms(4)] show ?thesis .
qed

lemma persist_results_total:
  "(\<And>x. x \<in> set rs \<Longrightarrow> \<exists>rows. x = Inr rows) \<Longrightarrow>
   \<exists>conn'. persist_results conn rs = (conn', None)"
proof (induction conn rs rule: persist_results.induct)
  case (1 conn)
  show ?case by simp
next
  case (2 conn e rs)
  from "2.prems" [of "Inl e"] show ?case by simp
next
  case (3 conn rows rs)
  have "\<exists>conn'. persist_results
          (if rows \<noteq> [] then insert_daily_history conn rows else conn) rs = (conn', None)"
    by (rule "3.IH") (simp add: "3.prems")
  then show ?case by simp
qed

text \<open>
  C4. In bulk mode, for every batch: each attempt that raises is followed by a wait of
  min(5.0, 0.5 * attempt number) seconds and, while attempts remain, by another
  attempt; at most BULK_MAX_RETRIES (3 by default) attempts are made. The first
  attempt that returns ends the batch: with zero rows when the frame is empty, without
  any further attempt. A batch whose every attempt raises returns zero rows, so none
  is persisted for it, and the other batches still complete and persist theirs: the
  run ends without exception when they returned rows, the store it leaves is the one
  their results alone give, and every row of theirs (of a key that no later result
  carries) is in it.
\<close>

theorem fetch_batch_rows_retry:
  "(\<forall>k df. 0 < k \<and> int k \<le> m
        \<and> (\<forall>n. 0 < n \<and> n < k \<longrightarrow> (\<exists>e. download n = Raised e))
        \<and> download k = Returned df \<longrightarrow>
      fetch_batch_rows download is_empty parse m =
        \<lparr>fetched_rows = (if is_empty df then Inr [] else parse df),
         waits = map backoff [1..<k], attempts = k\<rparr>)
   \<and> ((\<forall>n. 0 < n \<and> int n \<le> m \<longrightarrow> (\<exists>e. download n = Raised e)) \<longrightarrow>
        fetch_batch_rows download is_empty parse m =
          \<lparr>fetched_rows = Inr [], waits = map backoff [1..<Suc (nat m)], attempts = nat m\<rparr>
        \<and> persist_results conn
             (before @ fetched_rows (fetch_batch_rows download is_empty parse m) # after)
            = persist_results conn (before @ after)
        \<and> ((\<forall>x\<in>set (before @ after). \<exists>rows. x = Inr rows) \<longrightarrow>
             (\<exists>conn'. persist_results conn
                 (before @ fetched_rows (fetch_batch_rows download is_empty parse m) # after)
               = (conn', None)))
        \<and> (\<forall>pre rows post conn' r.
              before @ after = pre @ Inr rows # post
              \<and> persist_results conn
                   (before @ fetched_rows (fetch_batch_rows download is_empty parse m) # after)
                 = (conn', None)
              \<and> distinct (map bar_key rows) \<and> r \<in> set rows
              \<and> (\<forall>rows'. Inr rows' \<in> set post \<longrightarrow> bar_key r \<notin> bar_key ` set rows')
              \<longrightarrow> r \<in> set (daily_history conn')))
   \<and> (\<forall>n. backoff n = min 5 (0.5 * real n))"
proof (intro conjI allI impI)
  fix k df
  assume "0 < k \<and> int k \<le> m
        \<and> (\<forall>n. 0 < n \<and> n < k \<longrightarrow> (\<exists>e. download n = Raised e))
        \<and> download k = Returned df"
  then have k: "0 < k" "int k \<le> m" "download k = Returned df"
    and r: "\<forall>n. 0 < n \<and> n < k \<longrightarrow> (\<exists>e. download n = Raised e)"
    by blast+
  show "fetch_batch_rows download is_empty parse m =
        \<lparr>fetched_rows = (if is_empty df then Inr [] else parse df),
         waits = map backoff [1..<k], attempts = k\<rparr>"
    by (rule fetch_batch_rows_first_return [OF k(1,2) r k(3)])
next
  assume a: "\<forall>n. 0 < n \<and> int n \<le> m \<longrightarrow> (\<exists>e. download n = Raised e)"
  show f: "fetch_batch_rows download is_empty parse m =
          \<lparr>fetched_rows = Inr [], waits = map backoff [1..<Suc (nat m)], attempts = nat m\<rparr>"
    using a by (rule fetch_batch_rows_all_raise)
  then have z: "fetched_rows (fetch_batch_rows download is_empty parse m) = Inr []"
    by simp
  show s: "persist_results conn
             (before @ fetched_rows (fetch_batch_rows download is_empty parse m) # after)
            = persist_results conn (before @ after)"
    unfolding z by (rule persist_results_skip_empty)
  {
    assume all: "\<forall>x\<in>set (before @ after). \<exists>rows. x = Inr rows"
    have "\<exists>conn'. persist_results conn (before @ after) = (conn', None)"
      by (rule persist_results_total) (use all in blast)
    then show "\<exists>conn'. persist_results conn
                 (before @ fetched_rows (fetch_batch_rows download is_empty parse m) # after)
               = (conn', None)"
      unfolding s .
  }
  {
    fix pre rows post conn' r
    assume h: "before @ after = pre @ Inr rows # post
              \<and> persist_results conn
                   (before @ fetched_rows (fetch_batch_rows download is_empty parse m) # after)
                 = (conn', None)
              \<and> distinct (map bar_key rows) \<and> r \<in> set rows
              \<and> (\<forall>rows'. Inr rows' \<in> set post \<longrightarrow> bar_key r \<notin> bar_key ` set rows')"
    then have e: "before @ after = pre @ Inr rows # post"
      and p: "persist_results conn
                   (before @ fetched_rows (fetch_batch_rows download is_empty parse m) # after)
                 = (conn', None)"
      and d: "distinct (map bar_key rows)" and rr: "r \<in> set rows"
      and l: "\<forall>rows'. Inr rows' \<in> set post \<longrightarrow> bar_key r \<notin> bar_key ` set rows'"
      by blast+
    from p have pp: "persist_results conn (pre @ Inr rows # post) = (conn', None)"
      unfolding s e .
    have later: "bar_key r \<notin> bar_key ` set rows'" if "Inr rows' \<in> set post" for rows'
      using l that by blast
    show "r \<in> set (daily_history conn')"
      by (rule persist_results_persists [OF pp d rr later])
  }
next
  fix n
  show "backoff n = min 5 (0.5 * real n)" by (simp add: backoff_def)
qed

lemma backoff_values: "map backoff [1..<4] = [0.5, 1, 1.5]"
  by (simp add: backoff_def upt_conv_Cons)

lemma persist_after_failed_batch:
  "persist_results db1 [Inr [], Inr [bar2]]
     = (\<lparr>coins_tbl = [], daily_history = [bar3, bar2]\<rparr>, None)"
  by (simp add: insert_daily_history_def with_conn_def executemany_def insert_or_replace_def
      db1_def bar_key_def bar1_def bar2_def bar3_def)

theorem fetch_batch_rows_retry_witness:
  "fetch_batch_rows down (\<lambda>df. df = []) Inr 3 =
     \<lparr>fetched_rows = Inr [], waits = [0.5, 1, 1.5], attempts = 3\<rparr>
   \<and> fetch_batch_rows flaky (\<lambda>df. df = []) Inr 3 =
     \<lparr>fetched_rows = Inr [bar1], waits = [0.5, 1], attempts = 3\<rparr>
   \<and> (\<exists>conn'. persist_results db1
        [fetched_rows (fetch_batch_rows down (\<lambda>df. df = []) Inr 3), Inr [bar2]]
          = (conn', None)
        \<and> bar2 \<in> set (daily_history conn'))"
proof -
  note inst = fetch_batch_rows_retry [where m = 3 and is_empty = "\<lambda>df. df = []"
      and parse = Inr and conn = db1 and before = "[]" and after = "[Inr [bar2]]"]
  have d: "\<forall>n. 0 < n \<and> int n \<le> 3 \<longrightarrow> (\<exists>e. down n = Raised e)"
    by (simp add: down_def)
  note dn = inst [where download = down, THEN conjunct2, THEN conjunct1, THEN mp, OF d]
  note a = dn [THEN conjunct1]
  have all: "\<forall>x\<in>set ([] @ [Inr [bar2]]). \<exists>rows. x = (Inr rows :: exn + bar list)"
    by simp
  from dn [THEN conjunct2, THEN conjunct2, THEN conjunct1, THEN mp, OF all]
  obtain conn' where
    p: "persist_results db1
          ([] @ fetched_rows (fetch_batch_rows down (\<lambda>df. df = []) Inr 3) # [Inr [bar2]])
        = (conn', None)" ..
  have pre: "[] @ [Inr [bar2]] = [] @ Inr [bar2] # []
      \<and> persist_results db1
          ([] @ fetched_rows (fetch_batch_rows down (\<lambda>df. df = []) Inr 3) # [Inr [bar2]])
        = (conn', None)
      \<and> distinct (map bar_key [bar2]) \<and> bar2 \<in> set [bar2]
      \<and> (\<forall>rows'. Inr rows' \<in> set [] \<longrightarrow> bar_key bar2 \<notin> bar_key ` set rows')"
    using p by simp
  have b2: "bar2 \<in> set (daily_history conn')"
    by (rule dn [THEN conjunct2, THEN conjunct2, THEN conjunct2, THEN spec, THEN spec,
          THEN spec, THEN spec, THEN spec, THEN mp, OF pre])
  from p have p': "persist_results db1
        [fetched_rows (fetch_batch_rows down (\<lambda>df. df = []) Inr 3), Inr [bar2]]
          = (conn', None)" by simp
  have f: "(0::nat) < 3 \<and> int 3 \<le> 3
        \<and> (\<forall>n. 0 < n \<and> n < 3 \<longrightarrow> (\<exists>e. flaky n = Raised e))
        \<and> flaky 3 = Returned [bar1]"
    by (simp add: flaky_def)
  note b = inst [where download = flaky, THEN conjunct1, THEN spec, THEN spec, THEN mp, OF f]
  have w3: "map backoff [1..<Suc (nat 3)] = [0.5, 1, 1.5]"
    using backoff_values by (simp add: eval_nat_numeral)
  have w2: "map backoff [1..<3] = [0.5, 1]"
    by (simp add: backoff_def upt_conv_Cons)
  have a': "fetch_batch_rows down (\<lambda>df. df = []) Inr 3 =
     \<lparr>fetched_rows = Inr [], waits = [0.5, 1, 1.5], attempts = 3\<rparr>"
    using a w3 by simp
  have b': "fetch_batch_rows flaky (\<lambda>df. df = []) Inr 3 =
     \<lparr>fetched_rows = Inr [bar1], waits = [0.5, 1], attempts = 3\<rparr>"
    using b w2 by simp
  show ?thesis by (intro conjI exI [of _ conn'] a' b' p' b2)
qed

subsection \<open>Per-symbol mode\<close>

lemma fetch_symbol_rows_unfold:
  assumes "date_add (end_date item) 1 = Inr epo"
  shows "fetch_symbol_rows history is_empty rows_of item =
     (case history True (p_symbol item) (start_date item) epo of
        Returned df \<Rightarrow> (if is_empty df then Inr [] else rows_of df (p_symbol item), 1)
      | Raised e \<Rightarrow>
          if e = TypeError then
            (case history False (p_symbol item) (start_date item) epo of
               Returned df \<Rightarrow> (if is_empty df then Inr [] else rows_of df (p_symbol item), 2)
             | Raised e' \<Rightarrow> (Inl e', 2))
          else (Inr [], 1))"
  using assms by (simp add: fetch_symbol_rows_def Let_def)

text \<open>
  What the worker does contain: an exception other than TypeError from the first call,
  or an empty frame, gives zero rows after that single call; a second call is made
  only after a TypeError of the first call, and at most two calls are made.
\<close>

lemma fetch_symbol_rows_contained:
  assumes "date_add (end_date item) 1 = Inr epo"
  shows "(\<forall>e. history True (p_symbol item) (start_date item) epo = Raised e \<and> e \<noteq> TypeError
            \<longrightarrow> fetch_symbol_rows history is_empty rows_of item = (Inr [], 1))
     \<and> (\<forall>df. history True (p_symbol item) (start_date item) epo = Returned df \<and> is_empty df
            \<longrightarrow> fetch_symbol_rows history is_empty rows_of item = (Inr [], 1))
     \<and> (\<forall>df. history True (p_symbol item) (start_date item) epo = Raised TypeError
              \<and> history False (p_symbol item) (start_date item) epo = Returned df
              \<and> is_empty df
            \<longrightarrow> fetch_symbol_rows history is_empty rows_of item = (Inr [], 2))
     \<and> snd (fetch_symbol_rows history is_empty rows_of item) \<le> 2
     \<and> (snd (fetch_symbol_rows history is_empty rows_of item) = 2 \<longrightarrow>
           history True (p_symbol item) (start_date item) epo = Raised TypeError)
     \<and> (fst (fetch_symbol_rows history is_empty rows_of item) = Inr [] \<longrightarrow>
           persist_results conn
             (before @ fst (fetch_symbol_rows history is_empty rows_of item) # after)
           = persist_results conn (before @ after))"
proof -
  note u = fetch_symbol_rows_unfold [OF assms, of history is_empty rows_of]
  have a: "\<forall>e. history True (p_symbol item) (start_date item) epo = Raised e \<and> e \<noteq> TypeError
            \<longrightarrow> fetch_symbol_rows history is_empty rows_of item = (Inr [], 1)"
    unfolding u by simp
  have b: "\<forall>df. history True (p_symbol item) (start_date item) epo = Returned df \<and> is_empty df
            \<longrightarrow> fetch_symbol_rows history is_empty rows_of item = (Inr [], 1)"
    unfolding u by simp
  have c: "\<forall>df. history True (p_symbol item) (start_date item) epo = Raised TypeError
              \<and> history False (p_symbol item) (start_date item) epo = Returned df
              \<and> is_empty df
            \<longrightarrow> fetch_symbol_rows history is_empty rows_of item = (Inr [], 2)"
    unfolding u by simp
  have d: "snd (fetch_symbol_rows history is_empty rows_of item) \<le> 2"
    unfolding u by (simp split: fetched.splits)
  have e: "snd (fetch_symbol_rows history is_empty rows_of item) = 2 \<longrightarrow>
           history True (p_symbol item) (start_date item) epo = Raised TypeError"
    unfolding u by (simp split: fetched.splits)
  have f: "fst (fetch_symbol_rows history is_empty rows_of item) = Inr [] \<longrightarrow>
           persist_results conn
             (before @ fst (fetch_symbol_rows history is_empty rows_of item) # after)
           = persist_results conn (before @ after)"
    by (simp add: persist_results_skip_empty)
  from a b c d e f show ?thesis by (intro conjI)
qed

lemma fetch_symbol_rows_contained_example:
  "date_add (end_date item_btc) 1 = Inr 739048
   \<and> fetch_symbol_rows history_unreachable (\<lambda>df. df = []) (\<lambda>df s. Inr df) item_btc
       = (Inr [], 1)
   \<and> persist_results db1
        [fst (fetch_symbol_rows history_unreachable (\<lambda>df. df = []) (\<lambda>df s. Inr df) item_btc),
         Inr [bar2]]
      = persist_results db1 [Inr [bar2]]"
proof -
  have h: "date_add (end_date item_btc) 1 = Inr 739048"
    by (simp add: item_btc_def date_add_def date_min_def date_max_def timedelta_max_days_def)
  note inst = fetch_symbol_rows_contained [OF h, where history = history_unreachable
      and is_empty = "\<lambda>df. df = []" and rows_of = "\<lambda>df s. Inr df" and conn = db1
      and before = "[]" and after = "[Inr [bar2]]"]
  have r: "history_unreachable True (p_symbol item_btc) (start_date item_btc) 739048
             = Raised NetworkError \<and> NetworkError \<noteq> TypeError"
    by (simp add: history_unreachable_def)
  from inst r
  have a: "fetch_symbol_rows history_unreachable (\<lambda>df. df = []) (\<lambda>df s. Inr df) item_btc
       = (Inr [], 1)" by blast
  then have "fst (fetch_symbol_rows history_unreachable (\<lambda>df. df = []) (\<lambda>df s. Inr df)
      item_btc) = Inr []" by simp
  with inst
  have b: "persist_results db1
        ([] @ fst (fetch_symbol_rows history_unreachable (\<lambda>df. df = []) (\<lambda>df s. Inr df)
                item_btc) # [Inr [bar2]])
      = persist_results db1 ([] @ [Inr [bar2]])" by blast
  from h a b show ?thesis by simp
qed

text \<open>
  C5. The claim: in per-symbol mode any exception raised by the quote source makes the
  worker return zero rows, without retrying, and no failure leaves the worker or
  aborts the other symbols. The code breaks it where the first call raises TypeError:
  the worker calls the quote source a second time, outside any try, and the network
  error of that call leaves the worker (where the same error from the first call gives
  zero rows); \<open>fut.result()\<close> re-raises it in the completion loop, the run ends with
  that exception, and the rows fetched for the next symbol are not persisted.
\<close>

theorem fetch_symbol_rows_fallback_propagates:
  "history_no_timeout_arg True (p_symbol item_btc) (start_date item_btc) 739048
     = Raised TypeError
   \<and> history_no_timeout_arg False (p_symbol item_btc) (start_date item_btc) 739048
     = Raised NetworkError
   \<and> fetch_symbol_rows history_no_timeout_arg (\<lambda>df. df = []) (\<lambda>df s. Inr df) item_btc
       = (Inl NetworkError, 2)
   \<and> fetch_symbol_rows history_unreachable (\<lambda>df. df = []) (\<lambda>df s. Inr df) item_btc
       = (Inr [], 1)
   \<and> persist_results db1
        [fst (fetch_symbol_rows history_no_timeout_arg (\<lambda>df. df = []) (\<lambda>df s. Inr df)
                item_btc),
         Inr [bar2]]
      = (db1, Some NetworkError)
   \<and> bar2 \<notin> set (daily_history db1)"
  by (simp add: fetch_symbol_rows_def history_no_timeout_arg_def history_unreachable_def
      item_btc_def date_add_def date_min_def date_max_def timedelta_max_days_def
      db1_def bar1_def bar2_def bar3_def)

subsection \<open>The universe selector: fetching a page\<close>

lemma fetch_mirrors_first_quotes:
  assumes "\<And>b. b \<in> set before \<Longrightarrow> \<forall>q. try_mirror b \<noteq> Quotes q"
    and "try_mirror r = Quotes qs"
  shows "fetch_mirrors (before @ r # after) last_err = Inr qs"
  using assms(1)
proof (induction before arbitrary: last_err)
  case Nil
  show ?case using assms(2) by simp
next
  case (Cons b bs)
  have ih: "fetch_mirrors (bs @ r # after) le = Inr qs" for le
    by (rule Cons.IH) (simp add: Cons.prems)
  from Cons.prems [of b] have "\<forall>q. try_mirror b \<noteq> Quotes q" by simp
  then show ?case using ih by (cases "try_mirror b") simp_all
qed

lemma fetch_mirrors_Inl:
  "fetch_mirrors rs last_err = Inl e \<Longrightarrow>
   e = RuntimeError \<and> (\<forall>r\<in>set rs. \<forall>qs. try_mirror r \<noteq> Quotes qs)
   \<and> (last_err \<noteq> None \<or> (\<exists>r\<in>set rs. \<exists>e'. try_mirror r = Failed e'))"
proof (induction rs arbitrary: last_err)
  case Nil
  then show ?case by (cases last_err) simp_all
next
  case (Cons r rs)
  show ?case
  proof (cases "try_mirror r")
    case (Quotes qs)
    with Cons.prems show ?thesis by simp
  next
    case Skipped
    with Cons.prems have "fetch_mirrors rs last_err = Inl e" by simp
    from Cons.IH [OF this] Skipped show ?thesis by auto
  next
    case (Failed e')
    with Cons.prems have "fetch_mirrors rs (Some e') = Inl e" by simp
    from Cons.IH [OF this] Failed show ?thesis by auto
  qed
qed

lemma fetch_mirrors_some_quotes:
  "\<exists>r\<in>set rs. \<exists>qs. try_mirror r = Quotes qs \<Longrightarrow> \<exists>qs. fetch_mirrors rs last_err = Inr qs"
proof (induction rs arbitrary: last_err)
  case Nil
  then show ?case by simp
next
  case (Cons r rs)
  show ?case
  proof (cases "try_mirror r")
    case (Quotes qs)
    then show ?thesis by simp
  next
    case Skipped
    with Cons.prems have "\<exists>r\<in>set rs. \<exists>qs. try_mirror r = Quotes qs" by auto
    from Cons.IH [OF this] Skipped show ?thesis by simp
  next
    case (Failed e')
    with Cons.prems have "\<exists>r\<in>set rs. \<exists>qs. try_mirror r = Quotes qs" by auto
    from Cons.IH [OF this] Failed show ?thesis by simp
  qed
qed

lemma fetch_mirrors_no_quotes:
  "(\<And>r. r \<in> set rs \<Longrightarrow> \<forall>qs. try_mirror r \<noteq> Quotes qs) \<Longrightarrow>
   fetch_mirrors rs last_err =
     (if last_err \<noteq> None \<or> (\<exists>r\<in>set rs. \<exists>e. try_mirror r = Failed e)
      then Inl RuntimeError else Inr [])"
proof (induction rs arbitrary: last_err)
  case Nil
  show ?case by (cases last_err) simp_all
next
  case (Cons r rs)
  have ih: "fetch_mirrors rs le =
     (if le \<noteq> None \<or> (\<exists>r\<in>set rs. \<exists>e. try_mirror r = Failed e)
      then Inl RuntimeError else Inr [])" for le
    by (rule Cons.IH) (simp add: Cons.prems)
  from Cons.prems [of r] have nq: "\<forall>qs. try_mirror r \<noteq> Quotes qs" by simp
  show ?case
  proof (cases "try_mirror r")
    case (Quotes qs)
    with nq show ?thesis by simp
  next
    case Skipped
    then show ?thesis using ih [of last_err] by simp
  next
    case (Failed e)
    then show ?thesis using ih [of "Some e"] by auto
  qed
qed

text \<open>
  C8 (as amended). For every page request, \<open>_fetch_page_json\<close> goes through the mirrors
  in order and returns the quotes of the first mirror that yields a list of quotes,
  whatever the mirrors after it would answer, so that the page does not fail if any
  mirror yields quotes; it raises the page-level error (RuntimeError) exactly when no
  mirror yields quotes and at least one mirror raised, in its request or while its
  answer was read; when every mirror answers without usable results the page is
  empty.
\<close>

theorem fetch_page_json_mirrors:
  "(\<forall>before r after qs.
       mirrors = before @ r # after
       \<and> (\<forall>b\<in>set before. \<forall>q. try_mirror b \<noteq> Quotes q)
       \<and> try_mirror r = Quotes qs
       \<longrightarrow> fetch_page_json mirrors = Inr qs)
   \<and> (\<forall>e. fetch_page_json mirrors = Inl e \<longrightarrow>
         e = RuntimeError
         \<and> (\<forall>r\<in>set mirrors. \<forall>qs. try_mirror r \<noteq> Quotes qs)
         \<and> (\<exists>r\<in>set mirrors. \<exists>e'. try_mirror r = Failed e'))
   \<and> ((\<exists>r\<in>set mirrors. \<exists>qs. try_mirror r = Quotes qs) \<longrightarrow>
         (\<exists>qs. fetch_page_json mirrors = Inr qs))
   \<and> ((\<forall>r\<in>set mirrors. \<forall>qs. try_mirror r \<noteq> Quotes qs)
        \<and> (\<exists>r\<in>set mirrors. \<exists>e'. try_mirror r = Failed e') \<longrightarrow>
         fetch_page_json mirrors = Inl RuntimeError)
   \<and> ((\<forall>r\<in>set mirrors. try_mirror r = Skipped) \<longrightarrow> fetch_page_json mirrors = Inr [])"
proof (intro conjI allI impI)
  fix before r after qs
  assume a: "mirrors = before @ r # after
       \<and> (\<forall>b\<in>set before. \<forall>q. try_mirror b \<noteq> Quotes q)
       \<and> try_mirror r = Quotes qs"
  then have m: "mirrors = before @ r # after" and q: "try_mirror r = Quotes qs"
    and b: "\<And>b. b \<in> set before \<Longrightarrow> \<forall>q. try_mirror b \<noteq> Quotes q"
    by blast+
  show "fetch_page_json mirrors = Inr qs"
    unfolding fetch_page_json_def m by (rule fetch_mirrors_first_quotes [OF b q])
next
  fix e
  assume "fetch_page_json mirrors = Inl e"
  then have "fetch_mirrors mirrors None = Inl e" by (simp add: fetch_page_json_def)
  from fetch_mirrors_Inl [OF this]
  show "e = RuntimeError" and "\<forall>r\<in>set mirrors. \<forall>qs. try_mirror r \<noteq> Quotes qs"
    and "\<exists>r\<in>set mirrors. \<exists>e'. try_mirror r = Failed e'"
    by simp_all
next
  assume "\<exists>r\<in>set mirrors. \<exists>qs. try_mirror r = Quotes qs"
  then show "\<exists>qs. fetch_page_json mirrors = Inr qs"
    unfolding fetch_page_json_def by (rule fetch_mirrors_some_quotes)
next
  assume h: "(\<forall>r\<in>set mirrors. \<forall>qs. try_mirror r \<noteq> Quotes qs)
        \<and> (\<exists>r\<in>set mirrors. \<exists>e'. try_mirror r = Failed e')"
  then have nq: "\<And>r. r \<in> set mirrors \<Longrightarrow> \<forall>qs. try_mirror r \<noteq> Quotes qs"
    and f: "\<exists>r\<in>set mirrors. \<exists>e'. try_mirror r = Failed e'"
    by blast+
  from fetch_mirrors_no_quotes [OF nq, of mirrors None] f
  show "fetch_page_json mirrors = Inl RuntimeError"
    by (simp add: fetch_page_json_def)
next
  assume sk: "\<forall>r\<in>set mirrors. try_mirror r = Skipped"
  have nq: "\<forall>qs. try_mirror r \<noteq> Quotes qs" if "r \<in> set mirrors" for r
    using sk that by simp
  have nf: "\<not> (\<exists>r\<in>set mirrors. \<exists>e. try_mirror r = Failed e)"
    using sk by simp
  from fetch_mirrors_no_quotes [OF nq, of mirrors None] nf
  show "fetch_page_json mirrors = Inr []"
    by (simp add: fetch_page_json_def)
qed

lemma try_mirror_page_ok: "try_mirror (Json page_ok) = Quotes [PDict [(''symbol'', PStr ''BTC'')]]"
  by (simp add: try_mirror_def page_ok_def)

theorem fetch_page_json_mirrors_witness:
  "try_mirror (RequestFailed NetworkError) = Failed NetworkError
   \<and> fetch_page_json [RequestFailed NetworkError, Json page_ok]
        = Inr [PDict [(''symbol'', PStr ''BTC'')]]
   \<and> fetch_page_json [RequestFailed NetworkError, RequestFailed NetworkError]
        = Inl RuntimeError"
proof -
  have f: "try_mirror (RequestFailed NetworkError) = Failed NetworkError"
    by (simp add: try_mirror_def)
  note inst = fetch_page_json_mirrors
    [where mirrors = "[RequestFailed NetworkError, Json page_ok]"]
  have "[RequestFailed NetworkError, Json page_ok] = [RequestFailed NetworkError] @ Json page_ok # []
       \<and> (\<forall>b\<in>set [RequestFailed NetworkError]. \<forall>q. try_mirror b \<noteq> Quotes q)
       \<and> try_mirror (Json page_ok) = Quotes [PDict [(''symbol'', PStr ''BTC'')]]"
    using f try_mirror_page_ok by simp
  with inst have a: "fetch_page_json [RequestFailed NetworkError, Json page_ok]
        = Inr [PDict [(''symbol'', PStr ''BTC'')]]" by blast
  have b: "fetch_page_json [RequestFailed NetworkError, RequestFailed NetworkError]
        = Inl RuntimeError"
    by (simp add: fetch_page_json_def f)
  from f a b show ?thesis by simp
qed

text \<open>
  C8, counterexample to the claim as stated (the page fails only if all mirrors fail):
  the first mirror's request raises and the second mirror answers, with a page that
  has no results; the second mirror did not fail, and such an answer alone gives an
  empty page, yet the error kept from the first mirror is raised for the page.
\<close>

theorem fetch_page_json_raises_after_empty_answer:
  "try_mirror (RequestFailed NetworkError) = Failed NetworkError
   \<and> try_mirror (Json page_no_result) = Skipped
   \<and> fetch_page_json [Json page_no_result, Json page_no_result] = Inr []
   \<and> fetch_page_json [RequestFailed NetworkError, Json page_no_result] = Inl RuntimeError"
  by (simp add: fetch_page_json_def try_mirror_def page_no_result_def)

subsection \<open>The universe selector: collecting and ranking\<close>

lemma add_quote_inv:
  assumes "add_quote render float_of st q = Inr st'"
    and "distinct (map symbol (collected st))"
    and "symbol ` set (collected st) \<subseteq> seen_symbols st"
  shows "distinct (map symbol (collected st'))
       \<and> symbol ` set (collected st') \<subseteq> seen_symbols st'"
proof (cases "py_get q ''symbol'' PNone")
  case (Inl e)
  with assms(1) show ?thesis by (simp add: add_quote_def)
next
  case (Inr sv)
  let ?smb = "py_str render sv"
  show ?thesis
  proof (cases "?smb = [] \<or> ?smb \<in> seen_symbols st")
    case True
    with Inr assms show ?thesis by (simp add: add_quote_def Let_def)
  next
    case False
    with Inr assms(1) obtain nm mcap where
      st': "st' = \<lparr>collected = collected st @
                    [\<lparr>symbol = ?smb, name = nm, market_cap = mcap, rank = None\<rparr>],
                  seen_symbols = insert ?smb (seen_symbols st),
                  new_count = new_count st + 1\<rparr>"
      by (auto simp: add_quote_def Let_def split: sum.splits if_splits)
    from False assms(3) have "?smb \<notin> symbol ` set (collected st)" by blast
    with assms(2,3) show ?thesis unfolding st' by auto
  qed
qed

lemma quote_loop_inv:
  "quote_loop render float_of st qs = Inr st' \<Longrightarrow>
   distinct (map symbol (collected st)) \<Longrightarrow>
   symbol ` set (collected st) \<subseteq> seen_symbols st \<Longrightarrow>
   distinct (map symbol (collected st'))
   \<and> symbol ` set (collected st') \<subseteq> seen_symbols st'"
proof (induction qs arbitrary: st)
  case Nil
  then show ?case by simp
next
  case (Cons q qs)
  from Cons.prems(1) obtain st1 where
    a: "add_quote render float_of st q = Inr st1" and
    b: "quote_loop render float_of st1 qs = Inr st'"
    by (auto split: sum.splits)
  from add_quote_inv [OF a Cons.prems(2,3)]
  have "distinct (map symbol (collected st1))"
    and "symbol ` set (collected st1) \<subseteq> seen_symbols st1" by simp_all
  from Cons.IH [OF b this] show ?case .
qed

lemma page_loop_distinct:
  "page_loop mirrors render float_of target page_size pages_left start coll seen = Inr out \<Longrightarrow>
   distinct (map symbol coll) \<Longrightarrow> symbol ` set coll \<subseteq> seen \<Longrightarrow>
   distinct (map symbol out)"
proof (induction pages_left arbitrary: start coll seen)
  case 0
  then show ?case by simp
next
  case (Suc n)
  show ?case
  proof (cases "fetch_page_json (mirrors start page_size)")
    case (Inl e)
    with Suc.prems show ?thesis by simp
  next
    case (Inr quotes)
    let ?st0 = "\<lparr>collected = coll, seen_symbols = seen, new_count = 0\<rparr>"
    from Suc.prems(1) Inr obtain st where
      ql: "quote_loop render float_of ?st0 quotes = Inr st"
      by (auto split: sum.splits)
    have "distinct (map symbol (collected st))
        \<and> symbol ` set (collected st) \<subseteq> seen_symbols st"
      by (rule quote_loop_inv [OF ql]) (simp_all add: Suc.prems)
    then have d: "distinct (map symbol (collected st))"
      and s: "symbol ` set (collected st) \<subseteq> seen_symbols st"
      by simp_all
    show ?thesis
    proof (cases "quotes = [] \<or> new_count st = 0 \<or> length (collected st) \<ge> target")
      case True
      with Suc.prems(1) Inr ql have "out = collected st" by (auto split: if_splits)
      with d show ?thesis by simp
    next
      case False
      with Suc.prems(1) Inr ql have
        "page_loop mirrors render float_of target page_size n (start + page_size)
           (collected st) (seen_symbols st) = Inr out"
        by simp
      from Suc.IH [OF this d s] show ?thesis .
    qed
  qed
qed

lemma length_assign_ranks: "length (assign_ranks cs) = length cs"
  by (simp add: assign_ranks_def del: upt_Suc)

lemma assign_ranks_nth:
  "i < length cs \<Longrightarrow> assign_ranks cs ! i = (cs ! i)\<lparr>rank := Some (Suc i)\<rparr>"
  by (simp add: assign_ranks_def del: upt_Suc)

lemma symbol_assign_ranks: "map symbol (assign_ranks cs) = map symbol cs"
  by (rule nth_equalityI) (simp_all add: length_assign_ranks assign_ranks_nth)

lemma market_cap_assign_ranks: "map market_cap (assign_ranks cs) = map market_cap cs"
  by (rule nth_equalityI) (simp_all add: length_assign_ranks assign_ranks_nth)

lemma rank_assign_ranks: "map rank (assign_ranks cs) = map Some [1..<Suc (length cs)]"
  by (rule nth_equalityI)
     (simp_all add: length_assign_ranks assign_ranks_nth del: upt_Suc)

lemma py_ge_trans: "py_ge a b \<Longrightarrow> py_ge b c \<Longrightarrow> py_ge a c"
  by (cases a; cases b; cases c) (simp_all add: py_ge_def)

lemma py_lt_ge: "py_lt a b \<Longrightarrow> py_ge b a"
  by (cases a; cases b) (simp_all add: py_ge_def)

lemma set_insort_desc: "set (insort_desc x ys) = insert x (set ys)"
  by (induction ys) auto

lemma set_sort_by_market_cap: "set (sort_by_market_cap cs) = set cs"
  by (induction cs) (simp_all add: sort_by_market_cap_def set_insort_desc)

lemma distinct_insort_desc:
  "distinct (map symbol (insort_desc x ys)) =
     (symbol x \<notin> symbol ` set ys \<and> distinct (map symbol ys))"
  by (induction ys) (auto simp: set_insort_desc)

lemma distinct_symbol_sort:
  "distinct (map symbol cs) \<Longrightarrow> distinct (map symbol (sort_by_market_cap cs))"
proof (induction cs)
  case Nil
  then show ?case by (simp add: sort_by_market_cap_def)
next
  case (Cons c cs)
  have "set (foldr insort_desc cs []) = set cs"
    using set_sort_by_market_cap [of cs] by (simp add: sort_by_market_cap_def)
  with Cons show ?case
    by (simp add: sort_by_market_cap_def distinct_insort_desc)
qed

lemma sorted_insort_desc:
  assumes "sorted_wrt (\<lambda>a b. py_ge (market_cap a) (market_cap b)) ys"
    and "market_cap x \<noteq> NaN" and "\<forall>y\<in>set ys. market_cap y \<noteq> NaN"
  shows "sorted_wrt (\<lambda>a b. py_ge (market_cap a) (market_cap b)) (insort_desc x ys)"
  using assms
proof (induction ys)
  case Nil
  then show ?case by simp
next
  case (Cons y ys)
  show ?case
  proof (cases "py_lt (market_cap x) (market_cap y)")
    case True
    then have yx: "py_ge (market_cap y) (market_cap x)" by (rule py_lt_ge)
    from Cons.prems have tl: "sorted_wrt (\<lambda>a b. py_ge (market_cap a) (market_cap b)) ys"
      and hd: "\<forall>z\<in>set ys. py_ge (market_cap y) (market_cap z)"
      and nn: "\<forall>z\<in>set ys. market_cap z \<noteq> NaN"
      by simp_all
    have "sorted_wrt (\<lambda>a b. py_ge (market_cap a) (market_cap b)) (insort_desc x ys)"
      by (rule Cons.IH [OF tl Cons.prems(2) nn])
    with True yx hd show ?thesis by (simp add: set_insort_desc)
  next
    case False
    with Cons.prems have xy: "py_ge (market_cap x) (market_cap y)"
      by (simp add: py_ge_def)
    from Cons.prems have hd: "\<forall>z\<in>set ys. py_ge (market_cap y) (market_cap z)" by simp
    have "\<forall>z\<in>set ys. py_ge (market_cap x) (market_cap z)"
    proof
      fix z assume "z \<in> set ys"
      with hd have "py_ge (market_cap y) (market_cap z)" by (rule bspec)
      with xy show "py_ge (market_cap x) (market_cap z)" by (rule py_ge_trans)
    qed
    with False xy Cons.prems(1) show ?thesis by simp
  qed
qed

lemma sorted_desc_sort:
  "\<forall>c\<in>set cs. market_cap c \<noteq> NaN \<Longrightarrow>
   sorted_wrt (\<lambda>a b. py_ge (market_cap a) (market_cap b)) (sort_by_market_cap cs)"
proof (induction cs)
  case Nil
  then show ?case by (simp add: sort_by_market_cap_def)
next
  case (Cons c cs)
  from Cons.prems have nn: "\<forall>c\<in>set cs. market_cap c \<noteq> NaN" and c: "market_cap c \<noteq> NaN"
    by simp_all
  have s: "sorted_wrt (\<lambda>a b. py_ge (market_cap a) (market_cap b)) (sort_by_market_cap cs)"
    by (rule Cons.IH [OF nn])
  have nn': "\<forall>y\<in>set (sort_by_market_cap cs). market_cap y \<noteq> NaN"
    using nn by (simp add: set_sort_by_market_cap)
  have "sorted_wrt (\<lambda>a b. py_ge (market_cap a) (market_cap b))
          (insort_desc c (sort_by_market_cap cs))"
    by (rule sorted_insort_desc [OF s c nn'])
  then show ?case by (simp add: sort_by_market_cap_def)
qed

lemma nan_not_sorted:
  assumes "NaN \<in> set xs" and "2 \<le> length xs"
  shows "\<not> sorted_wrt py_ge xs"
proof (cases xs)
  case Nil
  with assms show ?thesis by simp
next
  case (Cons x ys)
  with assms(2) obtain y where y: "y \<in> set ys" by (cases ys) auto
  show ?thesis
  proof (cases "x = NaN")
    case True
    with y have "\<exists>y\<in>set ys. \<not> py_ge x y" by (auto simp: py_ge_def)
    with Cons show ?thesis by auto
  next
    case False
    with assms(1) Cons have "NaN \<in> set ys" by simp
    moreover have "\<not> py_ge x NaN" by (simp add: py_ge_def)
    ultimately have "\<exists>y\<in>set ys. \<not> py_ge x y" by blast
    with Cons show ?thesis by auto
  qed
qed

lemma select_universe_collected:
  assumes "page_loop mirrors render float_of target page_size max_pages 0 [] {} = Inr coll"
  shows "\<exists>coins. select_universe mirrors render float_of target page_size max_pages = Inr coins
       \<and> distinct (map symbol coins) \<and> length coins \<le> target
       \<and> map rank coins = map Some [1..<Suc (length coins)]
       \<and> ((\<forall>c\<in>set coll. market_cap c \<noteq> NaN) \<longrightarrow>
            sorted_wrt py_ge (map market_cap coins))"
proof -
  let ?coins = "assign_ranks (take target (sort_by_market_cap coll))"
  have su: "select_universe mirrors render float_of target page_size max_pages = Inr ?coins"
    using assms by (simp add: select_universe_def)
  have "distinct (map symbol coll)"
    by (rule page_loop_distinct [OF assms]) simp_all
  then have "distinct (map symbol (sort_by_market_cap coll))" by (rule distinct_symbol_sort)
  then have "distinct (take target (map symbol (sort_by_market_cap coll)))"
    by (rule distinct_take)
  then have a: "distinct (map symbol ?coins)"
    unfolding symbol_assign_ranks by (simp add: take_map)
  have b: "length ?coins \<le> target"
    unfolding length_assign_ranks by simp
  have d: "map rank ?coins = map Some [1..<Suc (length ?coins)]"
    unfolding length_assign_ranks by (rule rank_assign_ranks)
  have c: "(\<forall>c\<in>set coll. market_cap c \<noteq> NaN) \<longrightarrow>
            sorted_wrt py_ge (map market_cap ?coins)"
  proof
    assume "\<forall>c\<in>set coll. market_cap c \<noteq> NaN"
    then have "sorted_wrt (\<lambda>a b. py_ge (market_cap a) (market_cap b))
                 (sort_by_market_cap coll)"
      by (rule sorted_desc_sort)
    then have "sorted_wrt (\<lambda>a b. py_ge (market_cap a) (market_cap b))
                 (take target (sort_by_market_cap coll))"
      by (rule sorted_wrt_take)
    then have "sorted_wrt py_ge (map market_cap (take target (sort_by_market_cap coll)))"
      by (simp add: sorted_wrt_map)
    then show "sorted_wrt py_ge (map market_cap ?coins)"
      unfolding market_cap_assign_ranks .
  qed
  show ?thesis by (intro exI [of _ ?coins] conjI su a b c d)
qed

lemma select_universe_Inr:
  assumes "select_universe mirrors render float_of target page_size max_pages = Inr coins"
  shows "\<exists>coll. page_loop mirrors render float_of target page_size max_pages 0 [] {} = Inr coll"
  using assms by (auto simp: select_universe_def split: sum.splits)

lemma run_filter1_Inr:
  assumes "run_filter1 mirrors render float_of to_text now conn = Inr (conn', coins)"
  shows "select_universe mirrors render float_of 1000 100 20 = Inr coins
       \<and> insert_top_coins to_text conn coins ''yahoo_screener_api'' now = (conn', None)"
  using assms
  by (auto simp: run_filter1_def split: sum.splits prod.splits option.splits)

lemma extract_market_cap_plain:
  assumes "map_of d ''marketCap'' = Some v" and "\<forall>d'. v \<noteq> PDict d'"
  shows "extract_market_cap float_of (PDict d) =
     (case float_of v of
        Inr r \<Rightarrow> Inr r
      | Inl e \<Rightarrow> if e = TypeError \<or> e = ValueError then Inr (Fin 0) else Inl e)"
  using assms by (cases v) (simp_all add: extract_market_cap_def)

lemma extract_market_cap_missing:
  assumes "map_of d ''marketCap'' = None"
  shows "extract_market_cap float_of (PDict d) =
     (case float_of PNone of
        Inr r \<Rightarrow> Inr r
      | Inl e \<Rightarrow> if e = TypeError \<or> e = ValueError then Inr (Fin 0) else Inl e)"
  using assms by (simp add: extract_market_cap_def)

text \<open>
  C6 (as amended). For every sequence of ranking pages (whatever the mirrors answer
  for each page) on which the collecting loop ends without an exception, the universe
  selector returns a list that has no duplicate symbols, has at most target_count
  (1000 in run_filter1) records and carries the ranks 1, 2, ..., count in this order;
  when no collected market cap is NaN, the list is sorted so that each record's market
  cap is at least the next record's. The same list is what run_filter1 writes to the
  store. A market cap that is missing, or that float() rejects with TypeError or
  ValueError, counts as 0.0. A returned list of two or more records of which one has
  a NaN market cap is not sorted in this sense.
\<close>

theorem run_filter1_output:
  "(\<forall>coll. page_loop mirrors render float_of target page_size max_pages 0 [] {} = Inr coll \<longrightarrow>
      (\<exists>coins. select_universe mirrors render float_of target page_size max_pages = Inr coins
         \<and> distinct (map symbol coins) \<and> length coins \<le> target
         \<and> map rank coins = map Some [1..<Suc (length coins)]
         \<and> ((\<forall>c\<in>set coll. market_cap c \<noteq> NaN) \<longrightarrow>
              sorted_wrt py_ge (map market_cap coins))))
   \<and> (\<forall>conn' coins. run_filter1 mirrors render float_of to_text now conn = Inr (conn', coins) \<longrightarrow>
       (\<exists>coll. page_loop mirrors render float_of 1000 100 20 0 [] {} = Inr coll
          \<and> ((\<forall>c\<in>set coll. market_cap c \<noteq> NaN) \<longrightarrow>
               sorted_wrt py_ge (map market_cap coins)))
       \<and> distinct (map symbol coins) \<and> length coins \<le> 1000
       \<and> map rank coins = map Some [1..<Suc (length coins)]
       \<and> insert_top_coins to_text conn coins ''yahoo_screener_api'' now = (conn', None))
   \<and> (\<forall>coins. select_universe mirrors render float_of target page_size max_pages = Inr coins
         \<and> 2 \<le> length coins \<and> NaN \<in> market_cap ` set coins \<longrightarrow>
         \<not> sorted_wrt py_ge (map market_cap coins))
   \<and> (\<forall>d. map_of d ''marketCap'' = None \<and> float_of PNone = Inl TypeError \<longrightarrow>
         extract_market_cap float_of (PDict d) = Inr (Fin 0))
   \<and> (\<forall>d v. map_of d ''marketCap'' = Some v \<and> (\<forall>d'. v \<noteq> PDict d')
          \<and> (float_of v = Inl TypeError \<or> float_of v = Inl ValueError) \<longrightarrow>
         extract_market_cap float_of (PDict d) = Inr (Fin 0))
   \<and> (\<forall>d v r. map_of d ''marketCap'' = Some v \<and> (\<forall>d'. v \<noteq> PDict d')
          \<and> float_of v = Inr r \<longrightarrow>
         extract_market_cap float_of (PDict d) = Inr r)"
proof (intro conjI allI impI)
  fix coll
  assume "page_loop mirrors render float_of target page_size max_pages 0 [] {} = Inr coll"
  then show "\<exists>coins. select_universe mirrors render float_of target page_size max_pages = Inr coins
         \<and> distinct (map symbol coins) \<and> length coins \<le> target
         \<and> map rank coins = map Some [1..<Suc (length coins)]
         \<and> ((\<forall>c\<in>set coll. market_cap c \<noteq> NaN) \<longrightarrow>
              sorted_wrt py_ge (map market_cap coins))"
    by (rule select_universe_collected)
next
  fix conn' coins
  assume "run_filter1 mirrors render float_of to_text now conn = Inr (conn', coins)"
  from run_filter1_Inr [OF this]
  have su: "select_universe mirrors render float_of 1000 100 20 = Inr coins"
    and ins: "insert_top_coins to_text conn coins ''yahoo_screener_api'' now = (conn', None)"
    by simp_all
  from select_universe_Inr [OF su] obtain coll where
    pl: "page_loop mirrors render float_of 1000 100 20 0 [] {} = Inr coll" ..
  from select_universe_collected [OF pl] su
  have props: "distinct (map symbol coins) \<and> length coins \<le> 1000
       \<and> map rank coins = map Some [1..<Suc (length coins)]
       \<and> ((\<forall>c\<in>set coll. market_cap c \<noteq> NaN) \<longrightarrow>
            sorted_wrt py_ge (map market_cap coins))"
    by simp
  from pl props
  show "\<exists>coll. page_loop mirrors render float_of 1000 100 20 0 [] {} = Inr coll
          \<and> ((\<forall>c\<in>set coll. market_cap c \<noteq> NaN) \<longrightarrow>
               sorted_wrt py_ge (map market_cap coins))"
    by (intro exI [of _ coll] conjI) simp_all
  from props show "distinct (map symbol coins)" by (rule conjunct1)
  from props show "length coins \<le> 1000" by simp
  from props show "map rank coins = map Some [1..<Suc (length coins)]" by simp
  show "insert_top_coins to_text conn coins ''yahoo_screener_api'' now = (conn', None)"
    by (rule ins)
next
  fix coins
  assume h: "select_universe mirrors render float_of target page_size max_pages = Inr coins
         \<and> 2 \<le> length coins \<and> NaN \<in> market_cap ` set coins"
  show "\<not> sorted_wrt py_ge (map market_cap coins)"
    by (rule nan_not_sorted) (use h in simp_all)
next
  fix d :: "(string \<times> pyval) list"
  assume "map_of d ''marketCap'' = None \<and> float_of PNone = Inl TypeError"
  then show "extract_market_cap float_of (PDict d) = Inr (Fin 0)"
    by (simp add: extract_market_cap_missing)
next
  fix d :: "(string \<times> pyval) list" and v
  assume h: "map_of d ''marketCap'' = Some v \<and> (\<forall>d'. v \<noteq> PDict d')
          \<and> (float_of v = Inl TypeError \<or> float_of v = Inl ValueError)"
  then have "extract_market_cap float_of (PDict d) =
     (case float_of v of
        Inr r \<Rightarrow> Inr r
      | Inl e \<Rightarrow> if e = TypeError \<or> e = ValueError then Inr (Fin 0) else Inl e)"
    by (intro extract_market_cap_plain) simp_all
  with h show "extract_market_cap float_of (PDict d) = Inr (Fin 0)" by auto
next
  fix d :: "(string \<times> pyval) list" and v r
  assume h: "map_of d ''marketCap'' = Some v \<and> (\<forall>d'. v \<noteq> PDict d') \<and> float_of v = Inr r"
  then have "extract_market_cap float_of (PDict d) =
     (case float_of v of
        Inr r \<Rightarrow> Inr r
      | Inl e \<Rightarrow> if e = TypeError \<or> e = ValueError then Inr (Fin 0) else Inl e)"
    by (intro extract_market_cap_plain) simp_all
  with h show "extract_market_cap float_of (PDict d) = Inr r" by simp
qed

lemma sample_page_0:
  "fetch_page_json (sample_mirrors 0 100) = Inr [quote_btc, quote_eth]"
  by (simp add: sample_mirrors_def fetch_page_json_def try_mirror_def ranking_page_def)

lemma sample_page_1:
  "fetch_page_json (sample_mirrors 100 100) = Inr [quote_eth, quote_xrp]"
  by (simp add: sample_mirrors_def fetch_page_json_def try_mirror_def ranking_page_def)

lemma sample_page_2:
  "fetch_page_json (sample_mirrors 200 100) = Inr []"
  by (simp add: sample_mirrors_def fetch_page_json_def try_mirror_def page_no_result_def)

lemma sample_quotes_0:
  "quote_loop no_text sample_float \<lparr>collected = [], seen_symbols = {}, new_count = 0\<rparr>
     [quote_btc, quote_eth] =
   Inr \<lparr>collected =
          [\<lparr>symbol = ''BTC'', name = PStr ''Bitcoin'', market_cap = Fin 100, rank = None\<rparr>,
           \<lparr>symbol = ''ETH'', name = PStr ''Ethereum'', market_cap = Fin 500, rank = None\<rparr>],
        seen_symbols = {''ETH'', ''BTC''}, new_count = 2\<rparr>"
  by (simp add: add_quote_def extract_market_cap_def sample_float_def quote_btc_def
      quote_eth_def Let_def)

lemma sample_quotes_1:
  "quote_loop no_text sample_float
     \<lparr>collected =
          [\<lparr>symbol = ''BTC'', name = PStr ''Bitcoin'', market_cap = Fin 100, rank = None\<rparr>,
           \<lparr>symbol = ''ETH'', name = PStr ''Ethereum'', market_cap = Fin 500, rank = None\<rparr>],
      seen_symbols = {''ETH'', ''BTC''}, new_count = 0\<rparr>
     [quote_eth, quote_xrp] =
   Inr \<lparr>collected =
          [\<lparr>symbol = ''BTC'', name = PStr ''Bitcoin'', market_cap = Fin 100, rank = None\<rparr>,
           \<lparr>symbol = ''ETH'', name = PStr ''Ethereum'', market_cap = Fin 500, rank = None\<rparr>,
           \<lparr>symbol = ''XRP'', name = PStr ''XRP'', market_cap = Fin 0, rank = None\<rparr>],
        seen_symbols = {''XRP'', ''ETH'', ''BTC''}, new_count = 1\<rparr>"
  by (simp add: add_quote_def extract_market_cap_def sample_float_def quote_eth_def
      quote_xrp_def Let_def)

lemma sample_collected_pages:
  "page_loop sample_mirrors no_text sample_float 1000 100 (Suc (Suc (Suc n))) 0 [] {} =
     Inr [\<lparr>symbol = ''BTC'', name = PStr ''Bitcoin'', market_cap = Fin 100, rank = None\<rparr>,
          \<lparr>symbol = ''ETH'', name = PStr ''Ethereum'', market_cap = Fin 500, rank = None\<rparr>,
          \<lparr>symbol = ''XRP'', name = PStr ''XRP'', market_cap = Fin 0, rank = None\<rparr>]"
  by (simp add: sample_page_0 sample_page_1 sample_page_2 sample_quotes_0 sample_quotes_1
      del: quote_loop.simps(2))

lemma sample_collected:
  "page_loop sample_mirrors no_text sample_float 1000 100 20 0 [] {} =
     Inr [\<lparr>symbol = ''BTC'', name = PStr ''Bitcoin'', market_cap = Fin 100, rank = None\<rparr>,
          \<lparr>symbol = ''ETH'', name = PStr ''Ethereum'', market_cap = Fin 500, rank = None\<rparr>,
          \<lparr>symbol = ''XRP'', name = PStr ''XRP'', market_cap = Fin 0, rank = None\<rparr>]"
proof -
  have "(20::nat) = Suc (Suc (Suc 17))" by simp
  then show ?thesis by (simp only: sample_collected_pages)
qed

lemma sample_universe:
  "select_universe sample_mirrors no_text sample_float 1000 100 20 =
     Inr [\<lparr>symbol = ''ETH'', name = PStr ''Ethereum'', market_cap = Fin 500, rank = Some 1\<rparr>,
          \<lparr>symbol = ''BTC'', name = PStr ''Bitcoin'', market_cap = Fin 100, rank = Some 2\<rparr>,
          \<lparr>symbol = ''XRP'', name = PStr ''XRP'', market_cap = Fin 0, rank = Some 3\<rparr>]"
  by (simp add: select_universe_def sample_collected sort_by_market_cap_def assign_ranks_def
      upt_conv_Cons)

theorem run_filter1_output_witness:
  "\<exists>coins. select_universe sample_mirrors no_text sample_float 1000 100 20 = Inr coins
     \<and> map symbol coins = [''ETH'', ''BTC'', ''XRP'']
     \<and> map market_cap coins = [Fin 500, Fin 100, Fin 0]
     \<and> distinct (map symbol coins) \<and> length coins \<le> 1000
     \<and> map rank coins = map Some [1..<Suc (length coins)]
     \<and> sorted_wrt py_ge (map market_cap coins)"
proof -
  let ?coll =
    "[\<lparr>symbol = ''BTC'', name = PStr ''Bitcoin'', market_cap = Fin 100, rank = None\<rparr>,
      \<lparr>symbol = ''ETH'', name = PStr ''Ethereum'', market_cap = Fin 500, rank = None\<rparr>,
      \<lparr>symbol = ''XRP'', name = PStr ''XRP'', market_cap = Fin 0, rank = None::nat option\<rparr>]"
  let ?coins =
    "[\<lparr>symbol = ''ETH'', name = PStr ''Ethereum'', market_cap = Fin 500, rank = Some 1\<rparr>,
      \<lparr>symbol = ''BTC'', name = PStr ''Bitcoin'', market_cap = Fin 100, rank = Some 2\<rparr>,
      \<lparr>symbol = ''XRP'', name = PStr ''XRP'', market_cap = Fin 0, rank = Some (3::nat)\<rparr>]"
  have nn: "\<forall>c\<in>set ?coll. market_cap c \<noteq> NaN" by simp
  from run_filter1_output [where mirrors = sample_mirrors and render = no_text
      and float_of = sample_float and target = 1000 and page_size = 100 and max_pages = 20,
      THEN conjunct1, THEN spec, THEN mp, OF sample_collected]
  obtain coins where full:
    "select_universe sample_mirrors no_text sample_float 1000 100 20 = Inr coins
       \<and> distinct (map symbol coins) \<and> length coins \<le> 1000
       \<and> map rank coins = map Some [1..<Suc (length coins)]
       \<and> ((\<forall>c\<in>set ?coll. market_cap c \<noteq> NaN) \<longrightarrow>
            sorted_wrt py_ge (map market_cap coins))" ..
  from full sample_universe have eq: "coins = ?coins" by simp
  have s: "map symbol coins = [''ETH'', ''BTC'', ''XRP'']" unfolding eq by simp
  have m: "map market_cap coins = [Fin 500, Fin 100, Fin 0]" unfolding eq by simp
  have srt: "sorted_wrt py_ge (map market_cap coins)"
    by (rule full [THEN conjunct2, THEN conjunct2, THEN conjunct2, THEN conjunct2, THEN mp, OF nn])
  show ?thesis
    by (intro exI [of _ coins] conjI full [THEN conjunct1] s m srt
          full [THEN conjunct2, THEN conjunct1]
          full [THEN conjunct2, THEN conjunct2, THEN conjunct1]
          full [THEN conjunct2, THEN conjunct2, THEN conjunct2, THEN conjunct1])
qed

lemma nan_page_0:
  "fetch_page_json (nan_mirrors 0 100) = Inr [quote_nan, quote_five]"
  by (simp add: nan_mirrors_def fetch_page_json_def try_mirror_def ranking_page_def)

lemma nan_page_1:
  "fetch_page_json (nan_mirrors 100 100) = Inr []"
  by (simp add: nan_mirrors_def fetch_page_json_def try_mirror_def page_no_result_def)

lemma nan_quotes_0:
  "quote_loop no_text sample_float \<lparr>collected = [], seen_symbols = {}, new_count = 0\<rparr>
     [quote_nan, quote_five] =
   Inr \<lparr>collected =
          [\<lparr>symbol = ''AAA'', name = PStr ''AAA'', market_cap = NaN, rank = None\<rparr>,
           \<lparr>symbol = ''BBB'', name = PStr ''BBB'', market_cap = Fin 5, rank = None\<rparr>],
        seen_symbols = {''BBB'', ''AAA''}, new_count = 2\<rparr>"
  by (simp add: add_quote_def extract_market_cap_def sample_float_def quote_nan_def
      quote_five_def Let_def)

lemma nan_collected_pages:
  "page_loop nan_mirrors no_text sample_float 1000 100 (Suc (Suc n)) 0 [] {} =
     Inr [\<lparr>symbol = ''AAA'', name = PStr ''AAA'', market_cap = NaN, rank = None\<rparr>,
          \<lparr>symbol = ''BBB'', name = PStr ''BBB'', market_cap = Fin 5, rank = None\<rparr>]"
  by (simp add: nan_page_0 nan_page_1 nan_quotes_0 del: quote_loop.simps(2))

lemma nan_collected:
  "page_loop nan_mirrors no_text sample_float 1000 100 20 0 [] {} =
     Inr [\<lparr>symbol = ''AAA'', name = PStr ''AAA'', market_cap = NaN, rank = None\<rparr>,
          \<lparr>symbol = ''BBB'', name = PStr ''BBB'', market_cap = Fin 5, rank = None\<rparr>]"
proof -
  have "(20::nat) = Suc (Suc 18)" by simp
  then show ?thesis by (simp only: nan_collected_pages)
qed

text \<open>
  C6, counterexample to the claim as stated (for every sequence of pages): one page
  with the quotes AAA, whose market cap is the text nan, and BBB, with market cap 5.
  float gives NaN for AAA, the sort leaves the two records in their order, and neither
  order of the two has each market cap at least the next, since NaN answers False to
  every comparison.
\<close>

theorem run_filter1_nan_not_sorted:
  "select_universe nan_mirrors no_text sample_float 1000 100 20 =
     Inr [\<lparr>symbol = ''AAA'', name = PStr ''AAA'', market_cap = NaN, rank = Some 1\<rparr>,
          \<lparr>symbol = ''BBB'', name = PStr ''BBB'', market_cap = Fin 5, rank = Some 2\<rparr>]
   \<and> \<not> sorted_wrt py_ge [NaN, Fin 5] \<and> \<not> sorted_wrt py_ge [Fin 5, NaN]"
  by (simp add: select_universe_def nan_collected sort_by_market_cap_def assign_ranks_def
      upt_conv_Cons py_ge_def)

end
